theory Spec2Isabelle
  imports Main "HOL-Library.Sublist"
begin

section \<open>Strings as Python has them\<close>

text \<open>
  A Python \<open>str\<close> is modelled as a HOL \<open>string\<close>, a \<open>bytes\<close> value as a
  \<open>string\<close> of its bytes. The helpers below are the string methods that
  \<open>run_crawl.py\<close> calls.
\<close>

text \<open>\<open>needle in hay\<close> on strings: \<open>needle\<close> occurs as a contiguous run.\<close>

fun str_contains :: "string \<Rightarrow> string \<Rightarrow> bool" where
  "str_contains needle [] = (needle = [])"
| "str_contains needle (c # cs) = (prefix needle (c # cs) \<or> str_contains needle cs)"

text \<open>\<open>s.endswith(suf)\<close>.\<close>

definition endswith :: "string \<Rightarrow> string \<Rightarrow> bool" where
  "endswith s suf = suffix suf s"

text \<open>\<open>s.lower()\<close>: the ASCII capitals go to their small letters, every other
  character stays.\<close>

definition upper_table :: "(char \<times> char) list" where
  "upper_table = zip ''ABCDEFGHIJKLMNOPQRSTUVWXYZ'' ''abcdefghijklmnopqrstuvwxyz''"

definition lower_char :: "char \<Rightarrow> char" where
  "lower_char c = (case map_of upper_table c of Some d \<Rightarrow> d | None \<Rightarrow> c)"

definition py_lower :: "string \<Rightarrow> string" where
  "py_lower s = map lower_char s"

text \<open>\<open>s.strip()\<close>: white space is removed at both ends. The white space of
  \<open>str.isspace\<close> below code point 256: TAB, LF, VT, FF, CR, FS, GS, RS, US, SPACE,
  NEL and NBSP.\<close>

definition py_isspace :: "char \<Rightarrow> bool" where
  "py_isspace c = (of_char c \<in> {9, 10, 11, 12, 13, 28, 29, 30, 31, 32, 133, 160 :: nat})"

definition py_strip :: "string \<Rightarrow> string" where
  "py_strip s = rev (dropWhile py_isspace (rev (dropWhile py_isspace s)))"

section \<open>The library functions the crawler calls\<close>

text \<open>
  \<open>re.search\<close> on the patterns of the configuration, \<open>urlparse(u).netloc\<close>,
  \<open>urljoin\<close>, \<open>hashlib.sha1(...).hexdigest()\<close> and
  \<open>bytes.decode("utf-8", "ignore")\<close> belong to the Python library, not to the
  repository: they are parameters of the model. The patterns of the configuration are
  taken to be regular expressions that compile, so \<open>re_search\<close> is total.
\<close>

record lib =
  re_search :: "string \<Rightarrow> string \<Rightarrow> bool"
  netloc :: "string \<Rightarrow> string"
  urljoin :: "string \<Rightarrow> string \<Rightarrow> string"
  sha1_hexdigest :: "string \<Rightarrow> string"
  decode_utf8 :: "string \<Rightarrow> string"

section \<open>Helpers of \<open>run_crawl.py\<close>\<close>

text \<open>\<^verbatim>\<open>
def safe_filename(url: str, ext: str) -> str:
    h = hashlib.sha1(url.encode("utf-8")).hexdigest()[:16]
    return f"{h}{ext}"
\<close>\<close>

definition safe_filename :: "lib \<Rightarrow> string \<Rightarrow> string \<Rightarrow> string" where
  "safe_filename L url ext = take 16 (sha1_hexdigest L url) @ ext"

text \<open>\<^verbatim>\<open>
def pick_ext_by_ct(content_type: Optional[str]) -> str:
    if not content_type:
        return ".bin"
    ct = content_type.lower()
    if "pdf" in ct:
        return ".pdf"
    if "msword" in ct or "officedocument.wordprocessingml" in ct:
        return ".docx"
    if "html" in ct:
        return ".html"
    if "spreadsheet" in ct or "excel" in ct:
        return ".xlsx"
    if "presentation" in ct or "powerpoint" in ct:
        return ".pptx"
    return ".bin"
\<close>\<close>

definition ext_of_lowered :: "string \<Rightarrow> string" where
  "ext_of_lowered ct =
     (if str_contains ''pdf'' ct then ''.pdf''
      else if str_contains ''msword'' ct \<or> str_contains ''officedocument.wordprocessingml'' ct
        then ''.docx''
      else if str_contains ''html'' ct then ''.html''
      else if str_contains ''spreadsheet'' ct \<or> str_contains ''excel'' ct then ''.xlsx''
      else if str_contains ''presentation'' ct \<or> str_contains ''powerpoint'' ct then ''.pptx''
      else ''.bin'')"

fun pick_ext_by_ct :: "string option \<Rightarrow> string" where
  "pick_ext_by_ct None = ''.bin''"
| "pick_ext_by_ct (Some content_type) =
     (if content_type = [] then ''.bin'' else ext_of_lowered (py_lower content_type))"

text \<open>\<^verbatim>\<open>
def is_allowed(url: str, include: List[str], exclude: List[str]) -> bool:
    ok = any(re.search(p, url) for p in include) if include else True
    bad = any(re.search(p, url) for p in exclude) if exclude else False
    return ok and not bad
\<close>\<close>

definition is_allowed :: "lib \<Rightarrow> string \<Rightarrow> string list \<Rightarrow> string list \<Rightarrow> bool" where
  "is_allowed L url include exclude =
     (let ok = (if include \<noteq> [] then list_ex (\<lambda>p. re_search L p url) include else True);
          bad = (if exclude \<noteq> [] then list_ex (\<lambda>p. re_search L p url) exclude else False)
      in ok \<and> \<not> bad)"

text \<open>\<^verbatim>\<open>
def allowed_by_domain(url: str, allowed_domains: List[str]) -> bool:
    host = urlparse(url).netloc.lower()
    return any(host == d or host.endswith("." + d) for d in (allowed_domains or []))
\<close>\<close>

definition allowed_by_domain :: "lib \<Rightarrow> string \<Rightarrow> string list \<Rightarrow> bool" where
  "allowed_by_domain L url allowed_domains =
     (let host = py_lower (netloc L url)
      in list_ex (\<lambda>d. host = d \<or> endswith host (''.'' @ d)) allowed_domains)"

text \<open>\<^verbatim>\<open>
def looks_like_file(url: str, extensions: List[str]) -> bool:
    lower = url.lower()
    return any(lower.endswith(ext) for ext in extensions)
\<close>\<close>

definition looks_like_file :: "string \<Rightarrow> string list \<Rightarrow> bool" where
  "looks_like_file url extensions =
     (let lower = py_lower url in list_ex (\<lambda>ext. endswith lower ext) extensions)"

text \<open>The policy decision of \<open>main\<close> for a URL that is not in the frontier:
\<^verbatim>\<open>
    allowed = is_allowed(url, include_patterns, exclude_patterns)
    if not allowed and allowed_by_domain(url, allowed_domains):
        allowed = True
\<close>\<close>

record policy =
  include_patterns :: "string list"
  exclude_patterns :: "string list"
  allowed_domains :: "string list"
  file_exts :: "string list"

definition policy_allows :: "lib \<Rightarrow> policy \<Rightarrow> string \<Rightarrow> bool" where
  "policy_allows L P url =
     (let allowed = is_allowed L url (include_patterns P) (exclude_patterns P);
          allowed = (if \<not> allowed \<and> allowed_by_domain L url (allowed_domains P)
                     then True else allowed)
      in allowed)"

section \<open>Page objects\<close>

text \<open>
  A page is whatever the renderer returns: \<open>main\<close> never looks at its class, only
  probes attributes with \<open>getattr(page, name, None)\<close>. A Python value is therefore a
  \<open>pyval\<close>, and an object is the list of its attributes.
\<close>

datatype pyval =
    PNone
  | PInt int
  | PStr string
  | PBytes string
  | PList "pyval list"
  | PDict "(pyval \<times> pyval) list"
  | PObj "(string \<times> pyval) list"

datatype error = OSError | TypeError | AttributeError

text \<open>Truth value of a Python value (\<open>if v:\<close>, \<open>v or w\<close>).\<close>

fun truthy :: "pyval \<Rightarrow> bool" where
  "truthy PNone = False"
| "truthy (PInt i) = (i \<noteq> 0)"
| "truthy (PStr s) = (s \<noteq> [])"
| "truthy (PBytes b) = (b \<noteq> [])"
| "truthy (PList xs) = (xs \<noteq> [])"
| "truthy (PDict kvs) = (kvs \<noteq> [])"
| "truthy (PObj fs) = True"

text \<open>\<open>getattr(obj, name, None)\<close> and \<open>hasattr(obj, name)\<close>. None of the names
  the crawler probes is an attribute of a number, a string, a list or a dict.\<close>

fun getattr :: "pyval \<Rightarrow> string \<Rightarrow> pyval" where
  "getattr (PObj fs) name = (case map_of fs name of Some v \<Rightarrow> v | None \<Rightarrow> PNone)"
| "getattr _ name = PNone"

fun hasattr :: "pyval \<Rightarrow> string \<Rightarrow> bool" where
  "hasattr (PObj fs) name = (map_of fs name \<noteq> None)"
| "hasattr _ name = False"

text \<open>\<open>list(v)\<close>: the items of a list, the characters of a string, the bytes of a
  bytes value as numbers, the keys of a dict; \<open>TypeError\<close> for a value that is not
  iterable.\<close>

fun py_list :: "pyval \<Rightarrow> error + pyval list" where
  "py_list (PList xs) = Inr xs"
| "py_list (PStr s) = Inr (map (\<lambda>c. PStr [c]) s)"
| "py_list (PBytes b) = Inr (map (\<lambda>c. PInt (of_char c)) b)"
| "py_list (PDict kvs) = Inr (map fst kvs)"
| "py_list PNone = Inl TypeError"
| "py_list (PInt i) = Inl TypeError"
| "py_list (PObj fs) = Inl TypeError"

text \<open>\<^verbatim>\<open>
def normalize_pages(res: Any) -> List[Any]:
    if res is None:
        return []
    if isinstance(res, (list, tuple)):
        return list(res)
    if hasattr(res, "pages"):
        return list(getattr(res, "pages"))
    if hasattr(res, "results"):
        return list(getattr(res, "results"))
    return [res]
\<close>\<close>

fun normalize_pages :: "pyval \<Rightarrow> error + pyval list" where
  "normalize_pages PNone = Inr []"
| "normalize_pages (PList xs) = Inr xs"
| "normalize_pages res =
     (if hasattr res ''pages'' then py_list (getattr res ''pages'')
      else if hasattr res ''results'' then py_list (getattr res ''results'')
      else Inr [res])"

text \<open>\<^verbatim>\<open>
def page_content_type(page):
    return getattr(page, "content_type", None) or getattr(page, "mime_type", None)
\<close>\<close>

definition page_content_type :: "pyval \<Rightarrow> pyval" where
  "page_content_type page =
     (let a = getattr page ''content_type''
      in if truthy a then a else getattr page ''mime_type'')"

text \<open>\<^verbatim>\<open>
def page_html_text(page) -> Optional[str]:
    for attr in ["html", "rendered_html", "content_html", "cleaned_html", "content",
                 "text", "markdown", "markdown_v2"]:
        val = getattr(page, attr, None)
        if isinstance(val, bytes):
            try:
                val = val.decode("utf-8", "ignore")
            except Exception:
                continue
        if isinstance(val, str) and val.strip():
            if attr.startswith("markdown"):
                return f"<pre>\n{val}\n</pre>"
            return val
    return None
\<close>
  Decoding with \<open>"ignore"\<close> does not raise.\<close>

definition html_attrs :: "string list" where
  "html_attrs = [''html'', ''rendered_html'', ''content_html'', ''cleaned_html'', ''content'',
                 ''text'', ''markdown'', ''markdown_v2'']"

definition html_of_attr :: "lib \<Rightarrow> pyval \<Rightarrow> string \<Rightarrow> string option" where
  "html_of_attr L page attr =
     (let val = getattr page attr;
          val = (case val of PBytes b \<Rightarrow> PStr (decode_utf8 L b) | _ \<Rightarrow> val)
      in case val of
           PStr s \<Rightarrow>
             if py_strip s \<noteq> [] then
               (if prefix ''markdown'' attr
                then Some (''<pre>'' @ [CHR 0x0A] @ s @ [CHR 0x0A] @ ''</pre>'')
                else Some s)
             else None
         | _ \<Rightarrow> None)"

fun first_html :: "lib \<Rightarrow> pyval \<Rightarrow> string list \<Rightarrow> string option" where
  "first_html L page [] = None"
| "first_html L page (attr # attrs) =
     (case html_of_attr L page attr of Some t \<Rightarrow> Some t | None \<Rightarrow> first_html L page attrs)"

definition page_html_text :: "lib \<Rightarrow> pyval \<Rightarrow> string option" where
  "page_html_text L page = first_html L page html_attrs"

text \<open>\<^verbatim>\<open>
def page_is_html(page) -> bool:
    if page_html_text(page):
        return True
    ct = page_content_type(page)
    return bool(ct and "html" in ct.lower())
\<close>
  A content type that is true and not a string has no \<open>lower\<close> whose result can be
  searched for a string: the call raises.\<close>

definition page_is_html :: "lib \<Rightarrow> pyval \<Rightarrow> error + bool" where
  "page_is_html L page =
     (if page_html_text L page \<noteq> None \<and> page_html_text L page \<noteq> Some [] then Inr True
      else let ct = page_content_type page
           in if \<not> truthy ct then Inr False
              else case ct of
                     PStr s \<Rightarrow> Inr (str_contains ''html'' (py_lower s))
                   | PBytes b \<Rightarrow> Inl TypeError
                   | _ \<Rightarrow> Inl AttributeError)"

section \<open>The link harvester\<close>

text \<open>
  \<open>re.findall(r'(?:href|src)=["\']([^"\']+)["\']', html)\<close>: the matches are taken
  from left to right and do not overlap; each contributes its group, the run of
  characters between the quotes. At a position the pattern matches when \<open>href=\<close> or
  \<open>src=\<close> stands there, then a quote of either kind, then at least one character
  that is no quote, then a quote. The run is the longest one (it ends at the first
  quote), and a shorter run cannot match, since it would be followed by a character
  that is no quote.
\<close>

definition is_quote :: "char \<Rightarrow> bool" where
  "is_quote c = (c = CHR 0x22 \<or> c = CHR 0x27)"

definition attr_value_at :: "string \<Rightarrow> (string \<times> string) option" where
  "attr_value_at s =
     (let after = (if prefix ''href='' s then Some (drop 5 s)
                   else if prefix ''src='' s then Some (drop 4 s) else None)
      in case after of
           Some (q # r) \<Rightarrow>
             if is_quote q \<and> takeWhile (\<lambda>c. \<not> is_quote c) r \<noteq> []
                \<and> dropWhile (\<lambda>c. \<not> is_quote c) r \<noteq> []
             then Some (takeWhile (\<lambda>c. \<not> is_quote c) r, tl (dropWhile (\<lambda>c. \<not> is_quote c) r))
             else None
         | _ \<Rightarrow> None)"

lemma attr_value_at_shorter:
  assumes "attr_value_at s = Some (v, rest)"
  shows "length rest < length s"
proof -
  from assms obtain k q r where d: "drop k s = q # r"
    and rest: "rest = tl (dropWhile (\<lambda>c. \<not> is_quote c) r)"
    unfolding attr_value_at_def Let_def
    by (auto split: if_splits option.splits list.splits)
  have "length rest \<le> length (dropWhile (\<lambda>c. \<not> is_quote c) r)"
    using rest by simp
  also have "\<dots> \<le> length r"
    by (rule length_dropWhile_le)
  also have "length r < length (drop k s)"
    using d by simp
  also have "\<dots> \<le> length s"
    by simp
  finally show ?thesis .
qed

function findall_href_src :: "string \<Rightarrow> string list" where
  "findall_href_src [] = []"
| "findall_href_src (c # cs) =
     (case attr_value_at (c # cs) of
        Some (v, rest) \<Rightarrow> v # findall_href_src rest
      | None \<Rightarrow> findall_href_src cs)"
  by pat_completeness auto
termination
  by (relation "measure length") (auto dest: attr_value_at_shorter)

text \<open>\<^verbatim>\<open>
def page_links(page) -> List[str]:
    candidates = []
    for attr in ["out_links", "outgoing_urls", "links", "hrefs", "urls"]:
        v = getattr(page, attr, None)
        if v:
            candidates.extend(list(v))
    html = page_html_text(page)
    if html:
        candidates.extend(re.findall(r'(?:href|src)=["\']([^"\']+)["\']', html))
    out = []
    seen = set()
    for u in candidates:
        if not isinstance(u, str):
            continue
        u = u.strip()
        if not u or u in seen:
            continue
        seen.add(u)
        out.append(u)
    return out
\<close>\<close>

definition link_attrs :: "string list" where
  "link_attrs = [''out_links'', ''outgoing_urls'', ''links'', ''hrefs'', ''urls'']"

text \<open>The first loop: \<open>candidates\<close> after the attributes \<open>attrs\<close>.\<close>

fun native_candidates :: "pyval \<Rightarrow> string list \<Rightarrow> pyval list \<Rightarrow> error + pyval list" where
  "native_candidates page [] candidates = Inr candidates"
| "native_candidates page (attr # attrs) candidates =
     (let v = getattr page attr
      in if truthy v then
           (case py_list v of
              Inl e \<Rightarrow> Inl e
            | Inr items \<Rightarrow> native_candidates page attrs (candidates @ items))
         else native_candidates page attrs candidates)"

text \<open>The second loop, with its two variables \<open>out\<close> and \<open>seen\<close>.\<close>

fun dedup_links :: "pyval list \<Rightarrow> string list \<Rightarrow> string set \<Rightarrow> string list" where
  "dedup_links [] out seen_links = out"
| "dedup_links (PStr u # candidates) out seen_links =
     (let u = py_strip u
      in if u = [] \<or> u \<in> seen_links then dedup_links candidates out seen_links
         else dedup_links candidates (out @ [u]) (insert u seen_links))"
| "dedup_links (_ # candidates) out seen_links = dedup_links candidates out seen_links"

definition page_links :: "lib \<Rightarrow> pyval \<Rightarrow> error + string list" where
  "page_links L page =
     (case native_candidates page link_attrs [] of
        Inl e \<Rightarrow> Inl e
      | Inr candidates \<Rightarrow>
          (let html = page_html_text L page;
               candidates = (case html of
                               Some t \<Rightarrow> if t \<noteq> [] then candidates @ map PStr (findall_href_src t)
                                         else candidates
                             | None \<Rightarrow> candidates)
           in Inr (dedup_links candidates [] {})))"

section \<open>The world outside: renderer, network and disk\<close>

text \<open>
  A sidecar is a \<open>PageMeta\<close>. The field \<open>fetched_at\<close> is left out (the clock is not
  modelled), and the validation that pydantic runs on the field types is not modelled:
  the values of \<open>status\<close>, \<open>content_type\<close> and \<open>domain\<close> are stored as they are
  passed.
\<close>

record page_meta =
  meta_url :: string
  meta_status :: pyval
  meta_content_type :: pyval
  meta_file_path :: "string option"
  meta_html_path :: "string option"
  meta_out_links :: "string list"
  meta_domain :: pyval
  meta_notes :: "string option"

text \<open>The four kinds of line that \<open>main\<close> appends to the attempt log, without
  their time stamp.\<close>

datatype log_line =
    PlaywrightError string string
  | FileError string
  | DirectFileError string
  | PageLine string pyval

text \<open>
  What a run does, in the order in which it does it: calls to the renderer and the
  network, insertions into the frontier, and writes to disk. A write that raises leaves
  no event.
\<close>

datatype event =
    Render string
  | Fallback string
  | SeenAdd string
  | Download string
  | WriteHtml string string
  | WriteFile string string
  | WriteMeta string page_meta
  | LogAppend log_line
  | SaveSeen "string set"

text \<open>
  The renderer, the network and the disk answer as they please: each answer may depend
  on everything that happened before. \<open>arun\<close> returns the result of
  \<open>crawler.arun\<close> or the message of the exception it raises; \<open>http_get_text\<close> and
  \<open>http_get_bytes\<close> are the GET requests of the fallback fetcher and the downloader
  (status, \<open>Content-Type\<close> header and body; \<open>None\<close> when the request raises);
  \<open>write_fails\<close> tells whether opening or writing the file at a path raises
  \<open>OSError\<close>.
\<close>

record world =
  arun :: "event list \<Rightarrow> string \<Rightarrow> string + pyval"
  http_get_text :: "event list \<Rightarrow> string \<Rightarrow> (int \<times> string option \<times> string) option"
  http_get_bytes :: "event list \<Rightarrow> string \<Rightarrow> (string \<times> string option \<times> int) option"
  write_fails :: "event list \<Rightarrow> string \<Rightarrow> bool"

text \<open>
  The variables of \<open>main\<close> that change during the crawl, the events so far, and the
  exception that has escaped, if any: once \<open>raised\<close> is set nothing more happens.
\<close>

record state =
  seen :: "string set"
  fetched_count :: nat
  file_count :: nat
  html_count :: nat
  trace :: "event list"
  raised :: "error option"

definition OUTPUT_HTML :: string where "OUTPUT_HTML = ''output_raw/html''"
definition OUTPUT_FILES :: string where "OUTPUT_FILES = ''output_raw/files''"
definition OUTPUT_META :: string where "OUTPUT_META = ''output_raw/meta''"
definition LOG_PATH :: string where "LOG_PATH = ''logs/crawl.log''"
definition SEEN_PATH :: string where "SEEN_PATH = ''logs/seen.json''"

text \<open>\<open>dir / name\<close> on paths.\<close>

definition path_join :: "string \<Rightarrow> string \<Rightarrow> string" where
  "path_join dir name = dir @ ''/'' @ name"

text \<open>Recording an event, and an exception that escapes. After an exception nothing
  is recorded, and the first exception is the one that stays.\<close>

definition emit :: "event \<Rightarrow> state \<Rightarrow> state" where
  "emit e st = (if raised st \<noteq> None then st else st\<lparr>trace := trace st @ [e]\<rparr>)"

definition raise_exc :: "error \<Rightarrow> state \<Rightarrow> state" where
  "raise_exc e st = (if raised st = None then st\<lparr>raised := Some e\<rparr> else st)"

text \<open>\<open>path.write_text(...)\<close>, \<open>path.write_bytes(...)\<close> and
  \<open>with open(LOG_PATH, "a") as logf: logf.write(...)\<close> outside any \<open>try\<close>: the
  exception of a failing write escapes.\<close>

definition write_path :: "world \<Rightarrow> string \<Rightarrow> event \<Rightarrow> state \<Rightarrow> state" where
  "write_path W path e st =
     (if raised st \<noteq> None then st
      else if write_fails W (trace st) path then raise_exc OSError st
      else emit e st)"

definition log_append :: "world \<Rightarrow> log_line \<Rightarrow> state \<Rightarrow> state" where
  "log_append W line st = write_path W LOG_PATH (LogAppend line) st"

text \<open>\<^verbatim>\<open>
    try:
        SEEN_PATH.write_text(json.dumps(list(seen)), encoding="utf-8")
    except Exception:
        pass
\<close>\<close>

definition save_seen :: "world \<Rightarrow> state \<Rightarrow> state" where
  "save_seen W st =
     (if raised st \<noteq> None then st
      else if write_fails W (trace st) SEEN_PATH then st
      else emit (SaveSeen (seen st)) st)"

text \<open>\<^verbatim>\<open>
    seen: Set[str] = set()
    if SEEN_PATH.exists():
        try:
            seen = set(json.loads(SEEN_PATH.read_text(encoding="utf-8")))
        except Exception:
            pass
\<close>
  The argument is the list of the frontier file, \<open>None\<close> when the file is missing or
  cannot be read as a list.\<close>

definition load_seen :: "string list option \<Rightarrow> string set" where
  "load_seen file = (case file of Some urls \<Rightarrow> set urls | None \<Rightarrow> {})"

text \<open>\<^verbatim>\<open>
async def download_file(session, url, timeout_ms):
    try:
        async with session.get(url, ...) as resp:
            content = await resp.read()
            ctype = resp.headers.get("Content-Type")
            return content, ctype, resp.status
    except Exception:
        return b"", None, None
\<close>\<close>

definition download_file :: "world \<Rightarrow> event list \<Rightarrow> string \<Rightarrow> string \<times> string option \<times> int option" where
  "download_file W history url =
     (case http_get_bytes W history url of
        Some (content, ctype, status) \<Rightarrow> (content, ctype, Some status)
      | None \<Rightarrow> ([], None, None))"

text \<open>\<open>url.split("/")\<close>.\<close>

fun split_on :: "char \<Rightarrow> string \<Rightarrow> string list" where
  "split_on sep [] = [[]]"
| "split_on sep (c # cs) =
     (if c = sep then [] # split_on sep cs
      else case split_on sep cs of
             part # parts \<Rightarrow> (c # part) # parts
           | [] \<Rightarrow> [[c]])"

definition of_opt_str :: "string option \<Rightarrow> pyval" where
  "of_opt_str s = (case s of Some t \<Rightarrow> PStr t | None \<Rightarrow> PNone)"

definition of_opt_int :: "int option \<Rightarrow> pyval" where
  "of_opt_int i = (case i of Some n \<Rightarrow> PInt n | None \<Rightarrow> PNone)"

text \<open>\<^verbatim>\<open>
class _PseudoPage:
    def __init__(self, url, status, headers, text):
        self.url = url
        self.status = status
        self.content_type = headers.get("Content-Type") if headers else None
        self.html = text
        self.domain = url.split("/")[2]

async def fetch_html_fallback(session, url, timeout_ms) -> _PseudoPage | None:
    try:
        async with session.get(url, ..., allow_redirects=True) as resp:
            txt = await resp.text(errors="ignore")
            return _PseudoPage(url, resp.status, resp.headers, txt)
    except Exception:
        return None
\<close>
  The \<open>IndexError\<close> of \<open>url.split("/")[2]\<close> on a URL with fewer than two slashes is
  raised inside the \<open>try\<close>.\<close>

definition PseudoPage :: "string \<Rightarrow> int \<Rightarrow> string option \<Rightarrow> string \<Rightarrow> pyval option" where
  "PseudoPage url status content_type_header text =
     (let parts = split_on (CHR ''/'') url
      in if length parts \<le> 2 then None
         else Some (PObj [(''url'', PStr url), (''status'', PInt status),
                          (''content_type'', of_opt_str content_type_header),
                          (''html'', PStr text), (''domain'', PStr (parts ! 2))]))"

definition fetch_html_fallback :: "world \<Rightarrow> event list \<Rightarrow> string \<Rightarrow> pyval option" where
  "fetch_html_fallback W history url =
     (case http_get_text W history url of
        Some (status, content_type_header, txt) \<Rightarrow> PseudoPage url status content_type_header txt
      | None \<Rightarrow> None)"

section \<open>The crawl loop of \<open>main\<close>\<close>

text \<open>The body of the loop over the file links of a page (lines 365 to 391):
\<^verbatim>\<open>
    f_url = urljoin(url, raw_url)
    content, ctype, status = await download_file(session, f_url, ...)
    if not content:
        with open(LOG_PATH, "a", encoding="utf-8") as logf:
            logf.write(f"[...] FileError {f_url} -> empty/failed\n")
        continue
    ext = pick_ext_by_ct(ctype)
    f_name = safe_filename(f_url, ext)
    f_path = OUTPUT_FILES / f_name
    f_path.write_bytes(content)
    f_meta = PageMeta(url=f_url, fetched_at=..., status=status, content_type=ctype,
                      file_path=str(f_path), domain=getattr(page, "domain", None),
                      notes=f"discovered from {url}")
    (OUTPUT_META / f"{f_name}.json").write_text(f_meta.model_dump_json(indent=2), ...)
    file_count += 1
\<close>\<close>

definition count_file :: "state \<Rightarrow> state" where
  "count_file st = (if raised st \<noteq> None then st else st\<lparr>file_count := file_count st + 1\<rparr>)"

definition count_html :: "state \<Rightarrow> state" where
  "count_html st = (if raised st \<noteq> None then st else st\<lparr>html_count := html_count st + 1\<rparr>)"

definition download_link :: "lib \<Rightarrow> world \<Rightarrow> string \<Rightarrow> pyval \<Rightarrow> string \<Rightarrow> state \<Rightarrow> state" where
  "download_link L W url page raw_url st =
     (if raised st \<noteq> None then st
      else
        let f_url = urljoin L url raw_url;
            (content, ctype, status) = download_file W (trace st) f_url;
            st = emit (Download f_url) st
        in if content = [] then log_append W (FileError f_url) st
           else
             let ext = pick_ext_by_ct ctype;
                 f_name = safe_filename L f_url ext;
                 f_path = path_join OUTPUT_FILES f_name;
                 st = write_path W f_path (WriteFile f_path content) st;
                 f_meta = \<lparr>meta_url = f_url, meta_status = of_opt_int status,
                           meta_content_type = of_opt_str ctype, meta_file_path = Some f_path,
                           meta_html_path = None, meta_out_links = [],
                           meta_domain = getattr page ''domain'',
                           meta_notes = Some (''discovered from '' @ url)\<rparr>;
                 st = write_path W (path_join OUTPUT_META (f_name @ ''.json''))
                        (WriteMeta (path_join OUTPUT_META (f_name @ ''.json'')) f_meta) st
             in count_file st)"

text \<open>The end of an iteration of the page loop (lines 438 to 445):
\<^verbatim>\<open>
    with open(LOG_PATH, "a", encoding="utf-8") as logf:
        logf.write(f"[...] {url} status={getattr(page,'status',None)}\n")
    if fetched_count % 100 == 0:
        try:
            SEEN_PATH.write_text(json.dumps(list(seen)), encoding="utf-8")
        except Exception:
            pass
\<close>\<close>

definition page_done :: "world \<Rightarrow> string \<Rightarrow> pyval \<Rightarrow> state \<Rightarrow> state" where
  "page_done W url page st =
     (let st = log_append W (PageLine url (getattr page ''status'')) st
      in if fetched_count st mod 100 = 0 then save_seen W st else st)"

text \<open>The navigable branch (lines 339 to 391).\<close>

definition html_branch :: "lib \<Rightarrow> world \<Rightarrow> policy \<Rightarrow> string \<Rightarrow> pyval \<Rightarrow> state \<Rightarrow> state" where
  "html_branch L W P url page st =
     (let html_text = (case page_html_text L page of Some t \<Rightarrow> t | None \<Rightarrow> []);
          html_path = (if html_text \<noteq> []
                       then Some (path_join OUTPUT_HTML (safe_filename L url ''.html''))
                       else None);
          st = (case html_path of
                  Some hp \<Rightarrow> count_html (write_path W hp (WriteHtml hp html_text) st)
                | None \<Rightarrow> st)
      in case page_links L page of
           Inl e \<Rightarrow> raise_exc e st
         | Inr out_links \<Rightarrow>
             (let meta = \<lparr>meta_url = url, meta_status = getattr page ''status'',
                          meta_content_type = page_content_type page, meta_file_path = None,
                          meta_html_path = html_path, meta_out_links = out_links,
                          meta_domain = getattr page ''domain'', meta_notes = None\<rparr>;
                  st = write_path W (path_join OUTPUT_META (safe_filename L url ''.json''))
                         (WriteMeta (path_join OUTPUT_META (safe_filename L url ''.json'')) meta) st;
                  to_download = filter (\<lambda>l. looks_like_file l (file_exts P)) out_links
              in fold (download_link L W url page) to_download st))"

text \<open>The direct-file branch (lines 394 to 436). \<open>pick_ext_by_ct\<close> is called with the
  content type of the page, which may be any value: one that is true and no string
  raises. \<open>write_bytes\<close> raises \<open>TypeError\<close> on a body that is not bytes.\<close>

definition ext_of_value :: "pyval \<Rightarrow> error + string" where
  "ext_of_value ctype =
     (if \<not> truthy ctype then Inr ''.bin''
      else case ctype of
             PStr s \<Rightarrow> Inr (pick_ext_by_ct (Some s))
           | PBytes b \<Rightarrow> Inl TypeError
           | _ \<Rightarrow> Inl AttributeError)"

definition save_direct ::
  "lib \<Rightarrow> world \<Rightarrow> string \<Rightarrow> pyval \<Rightarrow> pyval \<Rightarrow> pyval \<Rightarrow> pyval \<Rightarrow> state \<Rightarrow> state" where
  "save_direct L W url page content ctype status st =
     (case ext_of_value ctype of
        Inl e \<Rightarrow> raise_exc e st
      | Inr ext \<Rightarrow>
          (let f_name = safe_filename L url ext;
               f_path = path_join OUTPUT_FILES f_name
           in case content of
                PBytes body \<Rightarrow>
                  (let st = write_path W f_path (WriteFile f_path body) st;
                       meta = \<lparr>meta_url = url, meta_status = status, meta_content_type = ctype,
                               meta_file_path = Some f_path, meta_html_path = None,
                               meta_out_links = [], meta_domain = getattr page ''domain'',
                               meta_notes = None\<rparr>;
                       st = write_path W (path_join OUTPUT_META (f_name @ ''.json''))
                              (WriteMeta (path_join OUTPUT_META (f_name @ ''.json'')) meta) st
                   in count_file st)
              | _ \<Rightarrow> raise_exc TypeError st))"

definition direct_branch :: "lib \<Rightarrow> world \<Rightarrow> string \<Rightarrow> pyval \<Rightarrow> state \<Rightarrow> state" where
  "direct_branch L W url page st =
     (let content = (if truthy (getattr page ''content'') then getattr page ''content''
                     else PBytes []);
          ctype = page_content_type page;
          status = getattr page ''status''
      in if \<not> truthy content then
           (let (body, ctype, status) = download_file W (trace st) url;
                st = emit (Download url) st
            in if body = [] then
                 (let st = log_append W (DirectFileError url) st;
                      meta = \<lparr>meta_url = url, meta_status = of_opt_int status,
                              meta_content_type = of_opt_str ctype, meta_file_path = None,
                              meta_html_path = None, meta_out_links = [],
                              meta_domain = getattr page ''domain'',
                              meta_notes = Some ''empty binary''\<rparr>
                  in write_path W (path_join OUTPUT_META (safe_filename L url ''.json''))
                       (WriteMeta (path_join OUTPUT_META (safe_filename L url ''.json'')) meta) st)
               else page_done W url page
                      (save_direct L W url page (PBytes body) (of_opt_str ctype)
                         (of_opt_int status) st))
         else page_done W url page (save_direct L W url page content ctype status st))"

text \<open>The body of the loop over the pages of a seed (lines 318 to 445). A \<open>url\<close>
  attribute that is true and no string is outside the model: hashing it, searching it
  or encoding it raises, which is taken to happen at once.
\<^verbatim>\<open>
    url = getattr(page, "url", None)
    if not url:
        continue
    if url in seen:
        continue
    allowed = is_allowed(url, include_patterns, exclude_patterns)
    if not allowed and allowed_by_domain(url, allowed_domains):
        allowed = True
    if not allowed:
        continue
    seen.add(url)
    fetched_count += 1
    if page_is_html(page):
        ...
    else:
        ...
\<close>\<close>

definition process_page :: "lib \<Rightarrow> world \<Rightarrow> policy \<Rightarrow> pyval \<Rightarrow> state \<Rightarrow> state" where
  "process_page L W P page st =
     (if raised st \<noteq> None then st
      else if \<not> truthy (getattr page ''url'') then st
      else case getattr page ''url'' of
             PStr url \<Rightarrow>
               if url \<in> seen st then st
               else if \<not> policy_allows L P url then st
               else
                 (let st = emit (SeenAdd url)
                             (st\<lparr>seen := insert url (seen st),
                                 fetched_count := fetched_count st + 1\<rparr>)
                  in case page_is_html L page of
                       Inl e \<Rightarrow> raise_exc e st
                     | Inr True \<Rightarrow> page_done W url page (html_branch L W P url page st)
                     | Inr False \<Rightarrow> direct_branch L W url page st)
           | _ \<Rightarrow> raise_exc TypeError st)"

text \<open>The body of the loop over the seeds (lines 294 to 316), then the pages.
\<^verbatim>\<open>
    pages = []
    try:
        res = await crawler.arun(seed, config=run_cfg)
        pages = normalize_pages(res)
    except Exception as e:
        error_msg = str(e)
        with open(LOG_PATH, "a", encoding="utf-8") as logf:
            logf.write(f"[...] PlaywrightError {seed} -> {error_msg}\n")
    if not pages:
        fp = await fetch_html_fallback(session, seed, ...)
        if fp:
            pages = [fp]
    for page in pages:
        ...
\<close>\<close>

definition error_message :: "error \<Rightarrow> string" where
  "error_message e = (case e of OSError \<Rightarrow> ''OSError'' | TypeError \<Rightarrow> ''TypeError''
                      | AttributeError \<Rightarrow> ''AttributeError'')"

text \<open>The \<open>try\<close> block: the pages, or the message of the exception.\<close>

definition render_stage :: "world \<Rightarrow> event list \<Rightarrow> string \<Rightarrow> string + pyval list" where
  "render_stage W history seed =
     (case arun W history seed of
        Inl msg \<Rightarrow> Inl msg
      | Inr res \<Rightarrow>
          (case normalize_pages res of
             Inl e \<Rightarrow> Inl (error_message e)
           | Inr pages \<Rightarrow> Inr pages))"

definition process_seed :: "lib \<Rightarrow> world \<Rightarrow> policy \<Rightarrow> string \<Rightarrow> state \<Rightarrow> state" where
  "process_seed L W P seed st =
     (if raised st \<noteq> None then st
      else
        let rendered = render_stage W (trace st) seed;
            st = emit (Render seed) st;
            pages = (case rendered of Inr ps \<Rightarrow> ps | Inl msg \<Rightarrow> []);
            st = (case rendered of
                    Inr ps \<Rightarrow> st
                  | Inl msg \<Rightarrow> log_append W (PlaywrightError seed msg) st)
        in if raised st \<noteq> None then st
           else if pages = [] then
             (let fp = fetch_html_fallback W (trace st) seed;
                  st = emit (Fallback seed) st
              in case fp of
                   Some p \<Rightarrow> fold (process_page L W P) [p] st
                 | None \<Rightarrow> st)
           else fold (process_page L W P) pages st)"

text \<open>Steps 4 and 5 of \<open>main\<close> and the last write of the frontier: the seeds are the
  working seed list (after the sitemap expansion), \<open>seen0\<close> the frontier loaded at
  startup. An exception that escapes the loop skips the last write.\<close>

definition initial_state :: "string set \<Rightarrow> state" where
  "initial_state seen0 =
     \<lparr>seen = seen0, fetched_count = 0, file_count = 0, html_count = 0, trace = [],
      raised = None\<rparr>"

definition crawl :: "lib \<Rightarrow> world \<Rightarrow> policy \<Rightarrow> string list \<Rightarrow> string set \<Rightarrow> state" where
  "crawl L W P seeds seen0 =
     save_seen W (fold (process_seed L W P) seeds (initial_state seen0))"

definition adds :: "(event \<Rightarrow> bool) \<Rightarrow> state \<Rightarrow> state \<Rightarrow> bool" where
  "adds Q st st' \<longleftrightarrow>
     (\<exists>evs. trace st' = trace st @ evs \<and> list_all Q evs
            \<and> seen st' = seen st \<union> {u. SeenAdd u \<in> set evs}
            \<and> seen st \<inter> {u. SeenAdd u \<in> set evs} = {})
     \<and> (raised st \<noteq> None \<longrightarrow> st' = st)
     \<and> (raised st' = None \<longrightarrow> raised st = None)"

text \<open>The sidecar of a page, as opposed to the sidecar of a file link, which carries
  the note \<open>discovered from ...\<close>.\<close>

fun is_page_sidecar :: "string \<Rightarrow> event \<Rightarrow> bool" where
  "is_page_sidecar url (WriteMeta path m) =
     (meta_url m = url \<and> (meta_notes m = None \<or> meta_notes m = Some ''empty binary''))"
| "is_page_sidecar url _ = False"

text \<open>The events of the file-link loop of the page \<open>url\<close>.\<close>

fun is_link_event :: "string \<Rightarrow> event \<Rightarrow> bool" where
  "is_link_event url (Download u) = True"
| "is_link_event url (WriteFile path body) = True"
| "is_link_event url (WriteMeta path m) = (meta_notes m = Some (''discovered from '' @ url))"
| "is_link_event url (LogAppend (FileError u)) = True"
| "is_link_event url _ = False"

text \<open>Events that are neither a frontier insertion, nor a call of the renderer or the
  fallback fetcher, nor the sidecar of a page.\<close>

fun is_quiet :: "event \<Rightarrow> bool" where
  "is_quiet (Render s) = False"
| "is_quiet (Fallback s) = False"
| "is_quiet (SeenAdd u) = False"
| "is_quiet (WriteMeta path m) =
     (meta_notes m \<noteq> None \<and> meta_notes m \<noteq> Some ''empty binary'')"
| "is_quiet _ = True"

fun is_inner_event :: "event \<Rightarrow> bool" where
  "is_inner_event (Render s) = False"
| "is_inner_event (Fallback s) = False"
| "is_inner_event (SeenAdd u) = False"
| "is_inner_event _ = True"

fun is_page_event :: "event \<Rightarrow> bool" where
  "is_page_event (Render s) = False"
| "is_page_event (Fallback s) = False"
| "is_page_event _ = True"

definition html_text_of :: "lib \<Rightarrow> pyval \<Rightarrow> string" where
  "html_text_of L page = (case page_html_text L page of Some t \<Rightarrow> t | None \<Rightarrow> [])"

definition html_path_of :: "lib \<Rightarrow> string \<Rightarrow> string" where
  "html_path_of L url = path_join OUTPUT_HTML (safe_filename L url ''.html'')"

definition page_sidecar_path :: "lib \<Rightarrow> string \<Rightarrow> string" where
  "page_sidecar_path L url = path_join OUTPUT_META (safe_filename L url ''.json'')"

definition html_meta :: "lib \<Rightarrow> string \<Rightarrow> pyval \<Rightarrow> string list \<Rightarrow> page_meta" where
  "html_meta L url page out_links =
     \<lparr>meta_url = url, meta_status = getattr page ''status'',
      meta_content_type = page_content_type page, meta_file_path = None,
      meta_html_path = (if html_text_of L page \<noteq> [] then Some (html_path_of L url) else None),
      meta_out_links = out_links, meta_domain = getattr page ''domain'', meta_notes = None\<rparr>"

definition html_written :: "lib \<Rightarrow> world \<Rightarrow> string \<Rightarrow> pyval \<Rightarrow> state \<Rightarrow> state" where
  "html_written L W url page st =
     (if html_text_of L page \<noteq> []
      then count_html (write_path W (html_path_of L url)
                         (WriteHtml (html_path_of L url) (html_text_of L page)) st)
      else st)"

definition empty_meta :: "string \<Rightarrow> pyval \<Rightarrow> string option \<Rightarrow> int option \<Rightarrow> page_meta" where
  "empty_meta url page ctype status =
     \<lparr>meta_url = url, meta_status = of_opt_int status, meta_content_type = of_opt_str ctype,
      meta_file_path = None, meta_html_path = None, meta_out_links = [],
      meta_domain = getattr page ''domain'', meta_notes = Some ''empty binary''\<rparr>"

definition direct_meta :: "string \<Rightarrow> pyval \<Rightarrow> pyval \<Rightarrow> pyval \<Rightarrow> string \<Rightarrow> page_meta" where
  "direct_meta url page ctype status f_path =
     \<lparr>meta_url = url, meta_status = status, meta_content_type = ctype,
      meta_file_path = Some f_path, meta_html_path = None, meta_out_links = [],
      meta_domain = getattr page ''domain'', meta_notes = None\<rparr>"

text \<open>A page passes the frontier check and the policy check.\<close>

definition accepts :: "lib \<Rightarrow> policy \<Rightarrow> state \<Rightarrow> pyval \<Rightarrow> string \<Rightarrow> bool" where
  "accepts L P st page url \<longleftrightarrow>
     raised st = None \<and> getattr page ''url'' = PStr url \<and> url \<noteq> [] \<and> url \<notin> seen st
     \<and> policy_allows L P url"

definition accepted_state :: "string \<Rightarrow> state \<Rightarrow> state" where
  "accepted_state url st =
     emit (SeenAdd url) (st\<lparr>seen := insert url (seen st), fetched_count := fetched_count st + 1\<rparr>)"

definition classify :: "lib \<Rightarrow> world \<Rightarrow> policy \<Rightarrow> string \<Rightarrow> pyval \<Rightarrow> state \<Rightarrow> state" where
  "classify L W P url page st =
     (case page_is_html L page of
        Inl e \<Rightarrow> raise_exc e st
      | Inr True \<Rightarrow> page_done W url page (html_branch L W P url page st)
      | Inr False \<Rightarrow> direct_branch L W url page st)"

text \<open>The fallback and the page loop after it, from the state \<open>st\<close> on.\<close>

definition fallback_then :: "lib \<Rightarrow> world \<Rightarrow> policy \<Rightarrow> string \<Rightarrow> state \<Rightarrow> state" where
  "fallback_then L W P seed st =
     (case fetch_html_fallback W (trace st) seed of
        Some p \<Rightarrow> fold (process_page L W P) [p] (emit (Fallback seed) st)
      | None \<Rightarrow> emit (Fallback seed) st)"

definition any_event :: "event \<Rightarrow> bool" where
  "any_event e = True"

text \<open>The events of a step: those of \<open>st'\<close> after the ones of \<open>st\<close>.\<close>

definition new_events :: "state \<Rightarrow> state \<Rightarrow> event list" where
  "new_events st st' = drop (length (trace st)) (trace st')"

text \<open>The paths and the sidecar of a downloaded file link.\<close>

definition link_file_path :: "lib \<Rightarrow> string \<Rightarrow> string option \<Rightarrow> string" where
  "link_file_path L f_url ctype =
     path_join OUTPUT_FILES (safe_filename L f_url (pick_ext_by_ct ctype))"

definition link_sidecar_path :: "lib \<Rightarrow> string \<Rightarrow> string option \<Rightarrow> string" where
  "link_sidecar_path L f_url ctype =
     path_join OUTPUT_META (safe_filename L f_url (pick_ext_by_ct ctype) @ ''.json'')"

definition link_meta :: "lib \<Rightarrow> string \<Rightarrow> pyval \<Rightarrow> string \<Rightarrow> string option \<Rightarrow> int option \<Rightarrow> page_meta" where
  "link_meta L url page f_url ctype status =
     \<lparr>meta_url = f_url, meta_status = of_opt_int status, meta_content_type = of_opt_str ctype,
      meta_file_path = Some (link_file_path L f_url ctype), meta_html_path = None,
      meta_out_links = [], meta_domain = getattr page ''domain'',
      meta_notes = Some (''discovered from '' @ url)\<rparr>"

text \<open>The events of a file link whose download is not empty.\<close>

definition saved_link_events ::
  "lib \<Rightarrow> string \<Rightarrow> pyval \<Rightarrow> string \<Rightarrow> string \<Rightarrow> string option \<Rightarrow> int \<Rightarrow> event list" where
  "saved_link_events L url page f_url body ctype status =
     [Download f_url, WriteFile (link_file_path L f_url ctype) body,
      WriteMeta (link_sidecar_path L f_url ctype) (link_meta L url page f_url ctype (Some status))]"

text \<open>A small site: an index page that links to a PDF, and the PDF itself, returned
  by the renderer for the seed \<open>https://h/index\<close>; every other seed makes the
  renderer raise and the fallback fail. The PDF can be downloaded. No write fails.\<close>

definition index_page :: pyval where
  "index_page = PObj [(''url'', PStr ''https://h/index''), (''status'', PInt 200),
                      (''html'', PStr ''<a href=\"https://h/a.pdf\">a</a>'')]"

definition pdf_page :: pyval where
  "pdf_page = PObj [(''url'', PStr ''https://h/a.pdf''), (''status'', PInt 200),
                    (''content_type'', PStr ''application/pdf'')]"

definition example_world :: world where
  "example_world = \<lparr>
     arun = (\<lambda>history seed. if seed = ''https://h/index''
                             then Inr (PList [index_page, pdf_page]) else Inl ''boom''),
     http_get_text = (\<lambda>history u. None),
     http_get_bytes = (\<lambda>history u. if u = ''https://h/a.pdf''
                                    then Some (''%PDF'', Some ''application/pdf'', 200)
                                    else None),
     write_fails = (\<lambda>history path. False) \<rparr>"

definition open_policy :: policy where
  "open_policy = \<lparr>include_patterns = [], exclude_patterns = [], allowed_domains = [],
                  file_exts = [''.pdf'', ''.doc'', ''.docx'']\<rparr>"

text \<open>From \<open>st\<close> to \<open>st'\<close> exactly one sidecar of the page \<open>url\<close> is written, among
  events that are not sidecars of a page.\<close>

definition one_sidecar :: "string \<Rightarrow> state \<Rightarrow> state \<Rightarrow> bool" where
  "one_sidecar url st st' \<longleftrightarrow>
     (\<exists>pre path m post.
        trace st' = trace st @ pre @ [WriteMeta path m] @ post
        \<and> list_all is_quiet pre \<and> list_all is_quiet post
        \<and> is_page_sidecar url (WriteMeta path m))"

text \<open>The number of sidecars of the page \<open>url\<close> among events.\<close>

definition page_sidecars :: "string \<Rightarrow> event list \<Rightarrow> nat" where
  "page_sidecars url evs = length (filter (is_page_sidecar url) evs)"

text \<open>The event of the HTML body of a page, if its HTML text is not empty.\<close>

definition html_events :: "lib \<Rightarrow> string \<Rightarrow> pyval \<Rightarrow> event list" where
  "html_events L url page =
     (if html_text_of L page \<noteq> []
      then [WriteHtml (html_path_of L url) (html_text_of L page)] else [])"

fun is_fallback :: "event \<Rightarrow> bool" where
  "is_fallback (Fallback s) = True"
| "is_fallback _ = False"

text \<open>The same site with an attempt log that cannot be written, and with output
  directories that cannot be written.\<close>

definition log_failing_world :: world where
  "log_failing_world = example_world\<lparr>write_fails := (\<lambda>history path. path = LOG_PATH)\<rparr>"

definition readonly_output_world :: world where
  "readonly_output_world =
     example_world\<lparr>write_fails := (\<lambda>history path. path \<noteq> LOG_PATH \<and> path \<noteq> SEEN_PATH)\<rparr>"

text \<open>A page without text and without content type, whose URL cannot be downloaded.\<close>

definition missing_page :: pyval where
  "missing_page = PObj [(''url'', PStr ''https://h/missing''), (''status'', PInt 404)]"

text \<open>Two pages that link to the same file.\<close>

definition news_page :: pyval where
  "news_page = PObj [(''url'', PStr ''https://h/news''), (''status'', PInt 200),
                     (''html'', PStr ''<a href=\"https://h/a.pdf\">b</a>'')]"

definition two_links_world :: world where
  "two_links_world =
     example_world\<lparr>arun := (\<lambda>history seed. Inr (PList [index_page, news_page]))\<rparr>"

fun is_download :: "event \<Rightarrow> bool" where
  "is_download (Download u) = True"
| "is_download _ = False"

fun is_file_write :: "event \<Rightarrow> bool" where
  "is_file_write (WriteFile path body) = True"
| "is_file_write _ = False"


text \<open>The URLs of the downloads among events, in order.\<close>

fun download_urls :: "event list \<Rightarrow> string list" where
  "download_urls [] = []"
| "download_urls (Download u # evs) = u # download_urls evs"
| "download_urls (_ # evs) = download_urls evs"

definition no_download :: "event \<Rightarrow> bool" where
  "no_download e = (\<not> is_download e)"

text \<open>A page that links to one file in two ways.\<close>

definition twice_page :: pyval where
  "twice_page = PObj [(''url'', PStr ''https://h/twice''), (''status'', PInt 200),
                      (''html'', PStr ''<a href=\"a.pdf\">a</a><a href=\"https://h/a.pdf\">b</a>'')]"

section \<open>Words of the specification about the link harvester\<close>

text \<open>Keeping the first occurrence of every element, in order.\<close>

definition first_seen :: "'a list \<Rightarrow> 'a list" where
  "first_seen xs = rev (remdups (rev xs))"

text \<open>The entries that are strings, stripped, without the empty ones.\<close>

fun stripped_strings :: "pyval list \<Rightarrow> string list" where
  "stripped_strings [] = []"
| "stripped_strings (PStr u # vs) =
     (if py_strip u = [] then stripped_strings vs else py_strip u # stripped_strings vs)"
| "stripped_strings (_ # vs) = stripped_strings vs"

definition items :: "pyval \<Rightarrow> pyval list" where
  "items v = (case py_list v of Inr xs \<Rightarrow> xs | Inl e \<Rightarrow> [])"

definition regex_links :: "lib \<Rightarrow> pyval \<Rightarrow> pyval list" where
  "regex_links L page =
     (case page_html_text L page of Some t \<Rightarrow> map PStr (findall_href_src t) | None \<Rightarrow> [])"

text \<open>The harvester as the specification words it, to be compared with \<open>page_links\<close>:
  the candidates of the first non-empty link field only, then the attribute values of
  the pattern scan.\<close>

fun first_nonempty_links :: "pyval \<Rightarrow> string list \<Rightarrow> pyval list" where
  "first_nonempty_links page [] = []"
| "first_nonempty_links page (attr # attrs) =
     (if truthy (getattr page attr) then items (getattr page attr)
      else first_nonempty_links page attrs)"

definition spec_page_links :: "lib \<Rightarrow> pyval \<Rightarrow> string list" where
  "spec_page_links L page =
     first_seen (stripped_strings (first_nonempty_links page link_attrs @ regex_links L page))"

text \<open>A page with two link fields that are not empty.\<close>

definition two_fields_page :: pyval where
  "two_fields_page = PObj [(''url'', PStr ''https://h/p''),
                           (''out_links'', PList [PStr ''a'']),
                           (''links'', PList [PStr ''b''])]"

section \<open>A library for the examples\<close>


fun after_scheme :: "string \<Rightarrow> string" where
  "after_scheme (a # b # c # cs) = (if [a, b, c] = ''://'' then cs else after_scheme (b # c # cs))"
| "after_scheme _ = []"

definition sha1_table :: "(string \<times> string) list" where
  "sha1_table =
     [(''https://x.edu/a'', ''7c13194e385a3ef173791e52a9d5f5fc61ef0561''),
      (''https://h/index'', ''399f7e1b98368ad414fda3f100f088d9fd48d2a8''),
      (''https://h/a.pdf'', ''92af10d122caa42f216f2340a5614da85403b338''),
      (''https://h/news'', ''23e010c4216b13b1cfa91939e1cadcae1f9777a2''),
      (''https://h/missing'', ''3a5cc7ae90f6df4e26b028b1d956b39ff62aa305''),
      (''https://h/x'', ''4fdb12835c8ece89a8dc24ee6b7f8f0c3bc70887''),
      (''https://h/twice'', ''ef08651fd8d3d640cd8d7d20d43fafb13ee1cb3d'')]"

definition example_lib :: lib where
  "example_lib = \<lparr>
     re_search = (\<lambda>p u. str_contains p u),
     netloc = (\<lambda>u. takeWhile (\<lambda>c. c \<notin> set ''/?#'') (after_scheme u)),
     urljoin = (\<lambda>base link. if str_contains ''://'' link then link else ''https://h/'' @ link),
     sha1_hexdigest = (\<lambda>u. case map_of sha1_table u of
                              Some digest \<Rightarrow> digest
                            | None \<Rightarrow> ''0000000000000000000000000000000000000000''),
     decode_utf8 = (\<lambda>b. b) \<rparr>"

section \<open>Properties\<close>

lemma str_contains_iff: "str_contains needle hay \<longleftrightarrow> (\<exists>pre post. hay = pre @ needle @ post)"
proof (induction hay)
  case Nil
  then show ?case by auto
next
  case (Cons c cs)
  show ?case
  proof
    assume "str_contains needle (c # cs)"
    then consider "prefix needle (c # cs)" | "str_contains needle cs" by auto
    then show "\<exists>pre post. c # cs = pre @ needle @ post"
    proof cases
      case 1
      then obtain post where "c # cs = needle @ post" by (auto simp: prefix_def)
      then have "c # cs = [] @ needle @ post" by simp
      then show ?thesis by blast
    next
      case 2
      with Cons obtain pre post where "cs = pre @ needle @ post" by auto
      then have "c # cs = (c # pre) @ needle @ post" by simp
      then show ?thesis by blast
    qed
  next
    assume "\<exists>pre post. c # cs = pre @ needle @ post"
    then obtain pre post where eq: "c # cs = pre @ needle @ post" by blast
    show "str_contains needle (c # cs)"
    proof (cases pre)
      case Nil
      with eq have "prefix needle (c # cs)" by (simp add: prefix_def)
      then show ?thesis by simp
    next
      case (Cons d pre')
      with eq have "cs = pre' @ needle @ post" by simp
      with Cons.IH have "str_contains needle cs" by blast
      then show ?thesis by simp
    qed
  qed
qed

subsection \<open>The extension of a content type\<close>

lemma str_contains_sublist: "str_contains needle hay = sublist needle hay"
  by (simp add: str_contains_iff sublist_def)

text \<open>
  Claim C9. The extension is \<open>.bin\<close> for a missing or an empty content type. For any
  other content type it is chosen by looking for substrings of the lowered content
  type, in this order: \<open>pdf\<close> gives \<open>.pdf\<close>; \<open>msword\<close> or
  \<open>officedocument.wordprocessingml\<close> gives \<open>.docx\<close>; \<open>html\<close> gives \<open>.html\<close>;
  \<open>spreadsheet\<close> or \<open>excel\<close> gives \<open>.xlsx\<close>; \<open>presentation\<close> or \<open>powerpoint\<close>
  gives \<open>.pptx\<close>; anything else gives \<open>.bin\<close>. In particular \<open>application/pdf\<close> gives
  \<open>.pdf\<close> and \<open>text/html; charset=utf-8\<close> gives \<open>.html\<close>. The substring test is
  stated with \<open>sublist\<close> of the list library.
\<close>

theorem pick_ext_by_ct_priority:
  "pick_ext_by_ct None = ''.bin'' \<and> pick_ext_by_ct (Some []) = ''.bin'' \<and>
   (\<forall>ct. ct \<noteq> [] \<longrightarrow> pick_ext_by_ct (Some ct) =
      (let l = py_lower ct in
        if sublist ''pdf'' l then ''.pdf''
        else if sublist ''msword'' l \<or> sublist ''officedocument.wordprocessingml'' l then ''.docx''
        else if sublist ''html'' l then ''.html''
        else if sublist ''spreadsheet'' l \<or> sublist ''excel'' l then ''.xlsx''
        else if sublist ''presentation'' l \<or> sublist ''powerpoint'' l then ''.pptx''
        else ''.bin'')) \<and>
   pick_ext_by_ct (Some ''application/pdf'') = ''.pdf'' \<and>
   pick_ext_by_ct (Some ''text/html; charset=utf-8'') = ''.html''"
proof -
  have a: "pick_ext_by_ct (Some ''application/pdf'') = ''.pdf''"
    by (simp add: ext_of_lowered_def py_lower_def lower_char_def upper_table_def)
  have b: "pick_ext_by_ct (Some ''text/html; charset=utf-8'') = ''.html''"
    by (simp add: ext_of_lowered_def py_lower_def lower_char_def upper_table_def)
  have c: "ct \<noteq> [] \<longrightarrow> pick_ext_by_ct (Some ct) =
      (let l = py_lower ct in
        if sublist ''pdf'' l then ''.pdf''
        else if sublist ''msword'' l \<or> sublist ''officedocument.wordprocessingml'' l then ''.docx''
        else if sublist ''html'' l then ''.html''
        else if sublist ''spreadsheet'' l \<or> sublist ''excel'' l then ''.xlsx''
        else if sublist ''presentation'' l \<or> sublist ''powerpoint'' l then ''.pptx''
        else ''.bin'')" for ct
  proof
    assume "ct \<noteq> []"
    then have "pick_ext_by_ct (Some ct) = ext_of_lowered (py_lower ct)"
      by simp
    then show "pick_ext_by_ct (Some ct) =
      (let l = py_lower ct in
        if sublist ''pdf'' l then ''.pdf''
        else if sublist ''msword'' l \<or> sublist ''officedocument.wordprocessingml'' l then ''.docx''
        else if sublist ''html'' l then ''.html''
        else if sublist ''spreadsheet'' l \<or> sublist ''excel'' l then ''.xlsx''
        else if sublist ''presentation'' l \<or> sublist ''powerpoint'' l then ''.pptx''
        else ''.bin'')"
      unfolding Let_def ext_of_lowered_def str_contains_sublist .
  qed
  from a b c show ?thesis by simp
qed

theorem pick_ext_by_ct_priority_witness:
  "''Application/VND.MS-Excel'' \<noteq> [] \<and>
   pick_ext_by_ct (Some ''Application/VND.MS-Excel'') = ''.xlsx'' \<and>
   pick_ext_by_ct (Some ''application/pdf; name=x.html'') = ''.pdf''"
  using pick_ext_by_ct_priority
  by (simp add: ext_of_lowered_def py_lower_def lower_char_def upper_table_def)

subsection \<open>The policy and the domain override\<close>

text \<open>
  Claim C4. For every URL, \<open>is_allowed\<close> holds exactly when the include list is empty
  or some include pattern matches the URL, and no exclude pattern matches it. The URL is
  accepted exactly when \<open>is_allowed\<close> holds or its host (the lowered \<open>netloc\<close>) equals
  an entry of the allowed-domain list or ends with a dot followed by the entry. In
  particular, with include \<open>/docs/\<close>, exclude \<open>/docs/archive/\<close> and allowed domain
  \<open>uit.edu.vn\<close>, the URL \<open>https://uit.edu.vn/docs/archive/y\<close> fails \<open>is_allowed\<close>
  and is accepted all the same, for every library in which both patterns match the URL
  and the URL's \<open>netloc\<close> is \<open>uit.edu.vn\<close>.
\<close>

theorem policy_domain_override:
  "is_allowed L url inc exc =
     ((inc = [] \<or> (\<exists>p \<in> set inc. re_search L p url)) \<and> \<not> (\<exists>p \<in> set exc. re_search L p url))
   \<and> policy_allows L P url =
     (is_allowed L url (include_patterns P) (exclude_patterns P)
      \<or> (\<exists>d \<in> set (allowed_domains P).
            py_lower (netloc L url) = d \<or> (\<exists>sub. py_lower (netloc L url) = sub @ ''.'' @ d)))
   \<and> (re_search L ''/docs/'' ''https://uit.edu.vn/docs/archive/y''
      \<and> re_search L ''/docs/archive/'' ''https://uit.edu.vn/docs/archive/y''
      \<and> netloc L ''https://uit.edu.vn/docs/archive/y'' = ''uit.edu.vn''
      \<longrightarrow> \<not> is_allowed L ''https://uit.edu.vn/docs/archive/y'' [''/docs/''] [''/docs/archive/'']
        \<and> policy_allows L
            \<lparr>include_patterns = [''/docs/''], exclude_patterns = [''/docs/archive/''],
             allowed_domains = [''uit.edu.vn''], file_exts = exts\<rparr>
            ''https://uit.edu.vn/docs/archive/y'')"
proof (intro conjI impI)
  show "is_allowed L url inc exc =
     ((inc = [] \<or> (\<exists>p \<in> set inc. re_search L p url)) \<and> \<not> (\<exists>p \<in> set exc. re_search L p url))"
    by (auto simp: is_allowed_def Let_def list_ex_iff)
  show "policy_allows L P url =
     (is_allowed L url (include_patterns P) (exclude_patterns P)
      \<or> (\<exists>d \<in> set (allowed_domains P).
            py_lower (netloc L url) = d \<or> (\<exists>sub. py_lower (netloc L url) = sub @ ''.'' @ d)))"
    by (auto simp: policy_allows_def allowed_by_domain_def Let_def list_ex_iff endswith_def suffix_def)
next
  assume a: "re_search L ''/docs/'' ''https://uit.edu.vn/docs/archive/y''
      \<and> re_search L ''/docs/archive/'' ''https://uit.edu.vn/docs/archive/y''
      \<and> netloc L ''https://uit.edu.vn/docs/archive/y'' = ''uit.edu.vn''"
  then show "\<not> is_allowed L ''https://uit.edu.vn/docs/archive/y'' [''/docs/''] [''/docs/archive/'']"
    by (simp add: is_allowed_def)
  from a show "policy_allows L
            \<lparr>include_patterns = [''/docs/''], exclude_patterns = [''/docs/archive/''],
             allowed_domains = [''uit.edu.vn''], file_exts = exts\<rparr>
            ''https://uit.edu.vn/docs/archive/y''"
    by (simp add: policy_allows_def allowed_by_domain_def is_allowed_def
        py_lower_def lower_char_def upper_table_def)
qed

theorem policy_domain_override_witness:
  "re_search example_lib ''/docs/'' ''https://uit.edu.vn/docs/archive/y''
   \<and> re_search example_lib ''/docs/archive/'' ''https://uit.edu.vn/docs/archive/y''
   \<and> netloc example_lib ''https://uit.edu.vn/docs/archive/y'' = ''uit.edu.vn''
   \<and> \<not> is_allowed example_lib ''https://uit.edu.vn/docs/archive/y'' [''/docs/''] [''/docs/archive/'']
   \<and> policy_allows example_lib
        \<lparr>include_patterns = [''/docs/''], exclude_patterns = [''/docs/archive/''],
         allowed_domains = [''uit.edu.vn''], file_exts = [''.pdf'']\<rparr>
        ''https://uit.edu.vn/docs/archive/y''"
proof -
  have m: "re_search example_lib ''/docs/'' ''https://uit.edu.vn/docs/archive/y''
   \<and> re_search example_lib ''/docs/archive/'' ''https://uit.edu.vn/docs/archive/y''
   \<and> netloc example_lib ''https://uit.edu.vn/docs/archive/y'' = ''uit.edu.vn''"
    by (simp add: example_lib_def)
  with policy_domain_override [of example_lib _ _ _ _ "[''.pdf'']"] show ?thesis
    by blast
qed

subsection \<open>The link harvester\<close>

lemma remdups_append_filter:
  "remdups (xs @ ys) = remdups (filter (\<lambda>x. x \<notin> set ys) xs) @ remdups ys"
  by (induction xs) auto

lemma first_seen_distinct: "distinct xs \<Longrightarrow> first_seen xs = xs"
  by (simp add: first_seen_def distinct_remdups_id)

lemma first_seen_append:
  assumes "distinct out"
  shows "first_seen (out @ xs) = out @ first_seen (filter (\<lambda>x. x \<notin> set out) xs)"
proof -
  have "remdups (rev xs @ rev out)
          = remdups (filter (\<lambda>x. x \<notin> set (rev out)) (rev xs)) @ remdups (rev out)"
    by (rule remdups_append_filter)
  moreover have "remdups (rev out) = rev out"
    using assms by (simp add: distinct_remdups_id)
  ultimately show ?thesis
    by (simp add: first_seen_def rev_filter)
qed

lemma dedup_links_first_seen:
  "distinct out \<Longrightarrow>
   dedup_links candidates out (set out) = first_seen (out @ stripped_strings candidates)"
proof (induction candidates out "set out" arbitrary: out rule: dedup_links.induct)
  case (1 out)
  then show ?case by (simp add: first_seen_distinct)
next
  case (2 u candidates out)
  show ?case
  proof (cases "py_strip u = [] \<or> py_strip u \<in> set out")
    case True
    with 2 have "dedup_links (PStr u # candidates) out (set out)
        = first_seen (out @ stripped_strings candidates)"
      by simp
    also have "\<dots> = first_seen (out @ stripped_strings (PStr u # candidates))"
      using True "2.prems" by (auto simp: first_seen_append)
    finally show ?thesis .
  next
    case False
    then have d: "distinct (out @ [py_strip u])"
      using "2.prems" by simp
    have s: "insert (py_strip u) (set out) = set (out @ [py_strip u])"
      by simp
    from False have "dedup_links (PStr u # candidates) out (set out)
        = dedup_links candidates (out @ [py_strip u]) (insert (py_strip u) (set out))"
      by (simp add: Let_def)
    also have "\<dots> = first_seen ((out @ [py_strip u]) @ stripped_strings candidates)"
      using "2.hyps"(2) [OF refl _ s d] False unfolding s by simp
    finally show ?thesis using False by simp
  qed
qed (simp_all)

lemma native_candidates_all:
  assumes "\<forall>a \<in> set attrs. truthy (getattr page a) \<longrightarrow> py_list (getattr page a) \<noteq> Inl TypeError"
  shows "native_candidates page attrs acc
           = Inr (acc @ concat (map (\<lambda>a. items (getattr page a)) attrs))"
  using assms
proof (induction attrs arbitrary: acc)
  case Nil
  then show ?case by simp
next
  case (Cons a attrs)
  show ?case
  proof (cases "truthy (getattr page a)")
    case True
    with Cons.prems obtain xs where xs: "py_list (getattr page a) = Inr xs"
      by (cases "getattr page a") auto
    with True Cons show ?thesis by (simp add: items_def Let_def)
  next
    case False
    then have "items (getattr page a) = []"
      by (cases "getattr page a") (auto simp: items_def)
    with False Cons show ?thesis by (simp add: Let_def)
  qed
qed

text \<open>
  Claim C7, as the code has it. For every page whose non-empty link fields can be
  iterated, the harvested list is made of the entries of all five link fields
  \<open>out_links\<close>, \<open>outgoing_urls\<close>, \<open>links\<close>, \<open>hrefs\<close>, \<open>urls\<close>, in this order
  (every non-empty field contributes, not only the first), followed by the \<open>href=\<close>
  and \<open>src=\<close> attribute values of the pattern scan of the HTML text; entries that are
  not strings are dropped, the strings are stripped and the empty ones dropped, and of
  equal links the first occurrence is kept. The result does not depend on \<open>urljoin\<close>:
  links are returned unresolved.
\<close>

theorem page_links_all_fields:
  assumes "\<forall>a \<in> set link_attrs. truthy (getattr page a) \<longrightarrow> py_list (getattr page a) \<noteq> Inl TypeError"
  shows "page_links L page =
           Inr (first_seen (stripped_strings
                  (concat (map (\<lambda>a. items (getattr page a)) link_attrs) @ regex_links L page)))
         \<and> page_links (L\<lparr>urljoin := j\<rparr>) page = page_links L page"
proof -
  have n: "native_candidates page link_attrs []
             = Inr (concat (map (\<lambda>a. items (getattr page a)) link_attrs))"
    using native_candidates_all [OF assms, of "[]"] by simp
  have d: "dedup_links cs [] {} = first_seen (stripped_strings cs)" for cs
    using dedup_links_first_seen [of "[]" cs] by simp
  have p: "page_links L' page =
           Inr (first_seen (stripped_strings
                  (concat (map (\<lambda>a. items (getattr page a)) link_attrs) @ regex_links L' page)))"
    for L'
    by (auto simp: page_links_def n Let_def d regex_links_def split: option.splits)
  have h: "html_of_attr (L\<lparr>urljoin := j\<rparr>) page a = html_of_attr L page a" for a
    by (simp add: html_of_attr_def Let_def cong: pyval.case_cong)
  have "first_html (L\<lparr>urljoin := j\<rparr>) page attrs = first_html L page attrs" for attrs
    by (induction attrs) (simp_all add: h cong: option.case_cong)
  then have u: "regex_links (L\<lparr>urljoin := j\<rparr>) page = regex_links L page"
    by (simp add: regex_links_def page_html_text_def)
  from p u show ?thesis by simp
qed

theorem page_links_all_fields_witness:
  "list_all (\<lambda>a. truthy (getattr two_fields_page a) \<longrightarrow>
              py_list (getattr two_fields_page a) \<noteq> Inl TypeError) link_attrs
   \<and> page_links example_lib two_fields_page = Inr [''a'', ''b'']"
proof -
  have h: "\<forall>a \<in> set link_attrs. truthy (getattr two_fields_page a) \<longrightarrow>
              py_list (getattr two_fields_page a) \<noteq> Inl TypeError"
    by (simp add: link_attrs_def two_fields_page_def)
  have v: "first_seen (stripped_strings
             (concat (map (\<lambda>a. items (getattr two_fields_page a)) link_attrs)
              @ regex_links example_lib two_fields_page)) = [''a'', ''b'']"
    by (simp add: two_fields_page_def link_attrs_def page_html_text_def html_attrs_def
        html_of_attr_def regex_links_def first_seen_def items_def py_strip_def py_isspace_def)
  from h have "list_all (\<lambda>a. truthy (getattr two_fields_page a) \<longrightarrow>
              py_list (getattr two_fields_page a) \<noteq> Inl TypeError) link_attrs"
    by (simp add: list_all_iff)
  with page_links_all_fields [OF h, of example_lib] v show ?thesis
    by simp
qed

text \<open>
  Claim C7 as stated fails: on a page whose \<open>out_links\<close> is \<open>["a"]\<close> and whose
  \<open>links\<close> is \<open>["b"]\<close> the code returns both links, where the first non-empty field
  alone gives \<open>["a"]\<close>.
\<close>

theorem page_links_first_field_counterexample:
  "page_links example_lib two_fields_page = Inr [''a'', ''b''] \<and>
   spec_page_links example_lib two_fields_page = [''a'']"
  by (simp add: page_links_def spec_page_links_def two_fields_page_def link_attrs_def
      page_html_text_def html_attrs_def html_of_attr_def regex_links_def first_seen_def
      items_def py_strip_def py_isspace_def Let_def)

lemma adds_refl: "adds Q st st"
  by (simp add: adds_def)

lemma addsI:
  assumes "trace st' = trace st @ evs" and "list_all Q evs"
    and "seen st' = seen st \<union> {u. SeenAdd u \<in> set evs}"
    and "seen st \<inter> {u. SeenAdd u \<in> set evs} = {}"
    and "raised st \<noteq> None \<longrightarrow> st' = st" and "raised st' = None \<longrightarrow> raised st = None"
  shows "adds Q st st'"
  unfolding adds_def
  apply (intro conjI)
    apply (rule exI [of _ evs])
    apply (intro conjI)
       apply (rule assms(1))
      apply (rule assms(2))
     apply (rule assms(3))
    apply (rule assms(4))
   apply (rule assms(5))
  apply (rule assms(6))
  done

lemma addsE:
  assumes "adds Q st st'"
  obtains evs where "trace st' = trace st @ evs" and "list_all Q evs"
    and "seen st' = seen st \<union> {u. SeenAdd u \<in> set evs}"
    and "seen st \<inter> {u. SeenAdd u \<in> set evs} = {}"
    and "raised st \<noteq> None \<longrightarrow> st' = st" and "raised st' = None \<longrightarrow> raised st = None"
proof -
  from assms have ex: "\<exists>evs. trace st' = trace st @ evs \<and> list_all Q evs
            \<and> seen st' = seen st \<union> {u. SeenAdd u \<in> set evs}
            \<and> seen st \<inter> {u. SeenAdd u \<in> set evs} = {}"
    and s: "raised st \<noteq> None \<longrightarrow> st' = st" and r: "raised st' = None \<longrightarrow> raised st = None"
    unfolding adds_def by (rule conjunct1, rule conjunct2 [THEN conjunct1], rule conjunct2 [THEN conjunct2])
  from ex obtain evs where "trace st' = trace st @ evs \<and> list_all Q evs
            \<and> seen st' = seen st \<union> {u. SeenAdd u \<in> set evs}
            \<and> seen st \<inter> {u. SeenAdd u \<in> set evs} = {}" ..
  with s r that show thesis by (elim conjE)
qed

lemma adds_trans:
  assumes "adds Q a b" and "adds Q b c"
  shows "adds Q a c"
proof -
  from assms(1) obtain e1 where 1: "trace b = trace a @ e1" and q1: "list_all Q e1"
    and f1: "seen b = seen a \<union> {u. SeenAdd u \<in> set e1}"
    and d1: "seen a \<inter> {u. SeenAdd u \<in> set e1} = {}"
    and s1: "raised a \<noteq> None \<longrightarrow> b = a" and r1: "raised b = None \<longrightarrow> raised a = None"
    by (rule addsE)
  from assms(2) obtain e2 where 2: "trace c = trace b @ e2" and q2: "list_all Q e2"
    and f2: "seen c = seen b \<union> {u. SeenAdd u \<in> set e2}"
    and d2: "seen b \<inter> {u. SeenAdd u \<in> set e2} = {}"
    and s2: "raised b \<noteq> None \<longrightarrow> c = b" and r2: "raised c = None \<longrightarrow> raised b = None"
    by (rule addsE)
  have split: "{u. SeenAdd u \<in> set (e1 @ e2)}
                 = {u. SeenAdd u \<in> set e1} \<union> {u. SeenAdd u \<in> set e2}"
    by (simp add: Collect_disj_eq)
  show ?thesis
  proof (rule addsI [where evs = "e1 @ e2"])
    show "trace c = trace a @ e1 @ e2" by (simp add: 1 2)
    show "list_all Q (e1 @ e2)" by (simp add: q1 q2)
    show "seen c = seen a \<union> {u. SeenAdd u \<in> set (e1 @ e2)}"
      by (simp only: split f1 f2 Un_assoc)
    have "seen a \<subseteq> seen b" by (simp add: f1)
    with d2 have "seen a \<inter> {u. SeenAdd u \<in> set e2} = {}" by blast
    with d1 show "seen a \<inter> {u. SeenAdd u \<in> set (e1 @ e2)} = {}"
      unfolding split by blast
    show "raised a \<noteq> None \<longrightarrow> c = a"
    proof
      assume n: "raised a \<noteq> None"
      with s1 have "b = a" by (rule mp)
      with n s2 show "c = a" by simp
    qed
    show "raised c = None \<longrightarrow> raised a = None"
      using r1 r2 by (intro impI) (rule mp [OF r1], rule mp [OF r2])
  qed
qed

lemma adds_mono:
  assumes "adds Q a b" and "\<And>e. Q e \<Longrightarrow> Q' e"
  shows "adds Q' a b"
proof -
  from assms(1) obtain e1 where 1: "trace b = trace a @ e1" and q1: "list_all Q e1"
    and f1: "seen b = seen a \<union> {u. SeenAdd u \<in> set e1}"
    and d1: "seen a \<inter> {u. SeenAdd u \<in> set e1} = {}"
    and s1: "raised a \<noteq> None \<longrightarrow> b = a" and r1: "raised b = None \<longrightarrow> raised a = None"
    by (rule addsE)
  from q1 assms(2) have "list_all Q' e1" by (simp add: list_all_iff)
  with 1 f1 d1 s1 r1 show ?thesis by (intro addsI [where evs = e1])
qed

lemma adds_fold:
  assumes "\<And>x st. adds Q st (f x st)"
  shows "adds Q st (fold f xs st)"
proof (induction xs arbitrary: st)
  case Nil
  show ?case by (simp add: adds_refl)
next
  case (Cons x xs)
  have "adds Q st (f x st)" by (rule assms)
  moreover have "adds Q (f x st) (fold f xs (f x st))" by (rule Cons.IH)
  ultimately have "adds Q st (fold f xs (f x st))" by (rule adds_trans)
  then show ?case by simp
qed

lemma adds_emit:
  assumes "Q e" and "\<And>u. e \<noteq> SeenAdd u"
  shows "adds Q st (emit e st)"
proof (cases "raised st = None")
  case True
  have "{u. SeenAdd u \<in> set [e]} = {}" using assms(2) by auto
  then show ?thesis
    using True assms(1) by (intro addsI [where evs = "[e]"]) (simp_all add: emit_def)
next
  case False
  then show ?thesis by (simp add: emit_def adds_refl)
qed

lemma adds_raise_exc: "adds Q st (raise_exc e st)"
  by (rule addsI [where evs = "[]"]) (simp_all add: raise_exc_def)

lemma adds_write_path:
  assumes "Q e" and "\<And>u. e \<noteq> SeenAdd u"
  shows "adds Q st (write_path W path e st)"
  unfolding write_path_def using assms by (simp add: adds_refl adds_raise_exc adds_emit)

lemma adds_log_append: "Q (LogAppend line) \<Longrightarrow> adds Q st (log_append W line st)"
  by (simp add: log_append_def adds_write_path)

lemma adds_save_seen: "Q (SaveSeen (seen st)) \<Longrightarrow> adds Q st (save_seen W st)"
  unfolding save_seen_def by (simp add: adds_refl adds_emit)

lemma adds_count_file: "adds Q st (count_file st)"
  by (rule addsI [where evs = "[]"]) (simp_all add: count_file_def)

lemma adds_count_html: "adds Q st (count_html st)"
  by (rule addsI [where evs = "[]"]) (simp_all add: count_html_def)

lemma link_event_quiet: "is_link_event url e \<Longrightarrow> is_quiet e"
  by (induction url e rule: is_link_event.induct) auto

lemma quiet_inner_event: "is_quiet e \<Longrightarrow> is_inner_event e"
  by (cases e) auto

lemma inner_page_event: "is_inner_event e \<Longrightarrow> is_page_event e"
  by (cases e) auto

lemma adds_download_link:
  "adds (is_link_event url) st (download_link L W url page raw_url st)"
proof (cases "raised st = None")
  case False
  then show ?thesis by (simp add: download_link_def adds_refl)
next
  case True
  let ?f = "urljoin L url raw_url"
  let ?st1 = "emit (Download ?f) st"
  obtain body ctype status where d: "download_file W (trace st) ?f = (body, ctype, status)"
    by (cases "download_file W (trace st) ?f") auto
  have a1: "adds (is_link_event url) st ?st1"
    by (rule adds_emit) simp_all
  show ?thesis
  proof (cases "body = []")
    case e: True
    have "download_link L W url page raw_url st = log_append W (FileError ?f) ?st1"
      using True d e by (simp add: download_link_def Let_def)
    moreover have "adds (is_link_event url) ?st1 (log_append W (FileError ?f) ?st1)"
      by (rule adds_log_append) simp
    ultimately show ?thesis using a1 by (simp add: adds_trans)
  next
    case ne: False
    let ?name = "safe_filename L ?f (pick_ext_by_ct ctype)"
    let ?fp = "path_join OUTPUT_FILES ?name"
    let ?mp = "path_join OUTPUT_META (?name @ ''.json'')"
    let ?meta = "\<lparr>meta_url = ?f, meta_status = of_opt_int status,
                  meta_content_type = of_opt_str ctype, meta_file_path = Some ?fp,
                  meta_html_path = None, meta_out_links = [],
                  meta_domain = getattr page ''domain'',
                  meta_notes = Some (''discovered from '' @ url)\<rparr>"
    let ?st2 = "write_path W ?fp (WriteFile ?fp body) ?st1"
    let ?st3 = "write_path W ?mp (WriteMeta ?mp ?meta) ?st2"
    have eq: "download_link L W url page raw_url st = count_file ?st3"
      using True d ne by (simp add: download_link_def Let_def)
    have a2: "adds (is_link_event url) ?st1 ?st2"
      by (rule adds_write_path) simp_all
    have a3: "adds (is_link_event url) ?st2 ?st3"
      by (rule adds_write_path) simp_all
    have a4: "adds (is_link_event url) ?st3 (count_file ?st3)"
      by (rule adds_count_file)
    from a1 a2 have "adds (is_link_event url) st ?st2" by (rule adds_trans)
    from this a3 have "adds (is_link_event url) st ?st3" by (rule adds_trans)
    from this a4 have "adds (is_link_event url) st (count_file ?st3)" by (rule adds_trans)
    with eq show ?thesis by simp
  qed
qed

lemma adds_download_links:
  "adds (is_link_event url) st (fold (download_link L W url page) raws st)"
  by (rule adds_fold) (rule adds_download_link)

lemma adds_page_done: "adds is_quiet st (page_done W url page st)"
proof -
  let ?st1 = "log_append W (PageLine url (getattr page ''status'')) st"
  have a1: "adds is_quiet st ?st1" by (rule adds_log_append) simp
  have a2: "adds is_quiet ?st1 (save_seen W ?st1)" by (rule adds_save_seen) simp
  from a1 a2 have "adds is_quiet st (save_seen W ?st1)" by (rule adds_trans)
  with a1 show ?thesis by (simp add: page_done_def Let_def)
qed

lemma html_branch_unfold:
  "html_branch L W P url page st =
     (case page_links L page of
        Inl e \<Rightarrow> raise_exc e (html_written L W url page st)
      | Inr out_links \<Rightarrow>
          fold (download_link L W url page)
            (filter (\<lambda>l. looks_like_file l (file_exts P)) out_links)
            (write_path W (page_sidecar_path L url)
               (WriteMeta (page_sidecar_path L url) (html_meta L url page out_links))
               (html_written L W url page st)))"
  by (simp add: html_branch_def html_written_def html_text_of_def html_path_of_def
      page_sidecar_path_def html_meta_def Let_def split: sum.splits)

lemma adds_html_written: "adds is_quiet st (html_written L W url page st)"
proof (cases "html_text_of L page \<noteq> []")
  case True
  let ?st1 = "write_path W (html_path_of L url)
                (WriteHtml (html_path_of L url) (html_text_of L page)) st"
  have "adds is_quiet st ?st1" by (rule adds_write_path) simp_all
  moreover have "adds is_quiet ?st1 (count_html ?st1)" by (rule adds_count_html)
  ultimately have "adds is_quiet st (count_html ?st1)" by (rule adds_trans)
  with True show ?thesis by (simp add: html_written_def)
next
  case False
  then show ?thesis by (simp add: html_written_def adds_refl)
qed

lemma adds_html_branch: "adds is_inner_event st (html_branch L W P url page st)"
proof -
  let ?st1 = "html_written L W url page st"
  have a1: "adds is_inner_event st ?st1"
    by (rule adds_mono [OF adds_html_written]) (rule quiet_inner_event)
  show ?thesis
  proof (cases "page_links L page")
    case (Inl e)
    have "adds is_inner_event ?st1 (raise_exc e ?st1)" by (rule adds_raise_exc)
    with a1 have "adds is_inner_event st (raise_exc e ?st1)" by (rule adds_trans)
    with Inl show ?thesis by (simp add: html_branch_unfold)
  next
    case (Inr out_links)
    let ?st2 = "write_path W (page_sidecar_path L url)
               (WriteMeta (page_sidecar_path L url) (html_meta L url page out_links)) ?st1"
    let ?st3 = "fold (download_link L W url page)
            (filter (\<lambda>l. looks_like_file l (file_exts P)) out_links) ?st2"
    have a2: "adds is_inner_event ?st1 ?st2" by (rule adds_write_path) simp_all
    have a3: "adds is_inner_event ?st2 ?st3"
      by (rule adds_mono [OF adds_download_links]) (rule quiet_inner_event, rule link_event_quiet)
    from a1 a2 have "adds is_inner_event st ?st2" by (rule adds_trans)
    from this a3 have "adds is_inner_event st ?st3" by (rule adds_trans)
    with Inr show ?thesis by (simp add: html_branch_unfold)
  qed
qed

lemma direct_branch_unfold:
  "direct_branch L W url page st =
     (if truthy (getattr page ''content'')
      then page_done W url page
             (save_direct L W url page (getattr page ''content'') (page_content_type page)
                (getattr page ''status'') st)
      else case download_file W (trace st) url of
             (body, ctype, status) \<Rightarrow>
               if body = []
               then write_path W (page_sidecar_path L url)
                      (WriteMeta (page_sidecar_path L url) (empty_meta url page ctype status))
                      (log_append W (DirectFileError url) (emit (Download url) st))
               else page_done W url page
                      (save_direct L W url page (PBytes body) (of_opt_str ctype)
                         (of_opt_int status) (emit (Download url) st)))"
  by (simp add: direct_branch_def Let_def page_sidecar_path_def empty_meta_def
      split: prod.splits)

lemma save_direct_unfold:
  "save_direct L W url page content ctype status st =
     (case ext_of_value ctype of
        Inl e \<Rightarrow> raise_exc e st
      | Inr ext \<Rightarrow>
          (case content of
             PBytes body \<Rightarrow>
               count_file
                 (write_path W (path_join OUTPUT_META (safe_filename L url ext @ ''.json''))
                    (WriteMeta (path_join OUTPUT_META (safe_filename L url ext @ ''.json''))
                       (direct_meta url page ctype status
                          (path_join OUTPUT_FILES (safe_filename L url ext))))
                    (write_path W (path_join OUTPUT_FILES (safe_filename L url ext))
                       (WriteFile (path_join OUTPUT_FILES (safe_filename L url ext)) body) st))
           | _ \<Rightarrow> raise_exc TypeError st))"
  by (simp add: save_direct_def Let_def direct_meta_def split: sum.splits pyval.splits)

lemma adds_save_direct:
  "adds is_inner_event st (save_direct L W url page content ctype status st)"
proof (cases "ext_of_value ctype")
  case (Inl e)
  then show ?thesis by (simp add: save_direct_unfold adds_raise_exc)
next
  case (Inr ext)
  show ?thesis
  proof (cases "\<exists>body. content = PBytes body")
    case False
    then have "save_direct L W url page content ctype status st = raise_exc TypeError st"
      using Inr by (cases content) (simp_all add: save_direct_unfold)
    then show ?thesis by (simp add: adds_raise_exc)
  next
    case True
    then obtain body where b: "content = PBytes body" ..
    let ?fp = "path_join OUTPUT_FILES (safe_filename L url ext)"
    let ?mp = "path_join OUTPUT_META (safe_filename L url ext @ ''.json'')"
    let ?st1 = "write_path W ?fp (WriteFile ?fp body) st"
    let ?st2 = "write_path W ?mp (WriteMeta ?mp (direct_meta url page ctype status ?fp)) ?st1"
    have a1: "adds is_inner_event st ?st1" by (rule adds_write_path) simp_all
    have a2: "adds is_inner_event ?st1 ?st2" by (rule adds_write_path) simp_all
    have a3: "adds is_inner_event ?st2 (count_file ?st2)" by (rule adds_count_file)
    from a1 a2 have "adds is_inner_event st ?st2" by (rule adds_trans)
    from this a3 have "adds is_inner_event st (count_file ?st2)" by (rule adds_trans)
    then show ?thesis using Inr b by (simp add: save_direct_unfold)
  qed
qed

lemma adds_page_done_inner: "adds is_inner_event st (page_done W url page st)"
  by (rule adds_mono [OF adds_page_done]) (rule quiet_inner_event)

lemma adds_direct_branch: "adds is_inner_event st (direct_branch L W url page st)"
proof (cases "truthy (getattr page ''content'')")
  case True
  let ?st1 = "save_direct L W url page (getattr page ''content'') (page_content_type page)
                (getattr page ''status'') st"
  have "adds is_inner_event st ?st1" by (rule adds_save_direct)
  moreover have "adds is_inner_event ?st1 (page_done W url page ?st1)"
    by (rule adds_page_done_inner)
  ultimately have "adds is_inner_event st (page_done W url page ?st1)" by (rule adds_trans)
  with True show ?thesis by (simp add: direct_branch_unfold)
next
  case False
  obtain body ctype status where d: "download_file W (trace st) url = (body, ctype, status)"
    by (cases "download_file W (trace st) url") auto
  let ?st1 = "emit (Download url) st"
  have a1: "adds is_inner_event st ?st1" by (rule adds_emit) simp_all
  show ?thesis
  proof (cases "body = []")
    case True
    let ?st2 = "log_append W (DirectFileError url) ?st1"
    let ?st3 = "write_path W (page_sidecar_path L url)
                      (WriteMeta (page_sidecar_path L url) (empty_meta url page ctype status)) ?st2"
    have a2: "adds is_inner_event ?st1 ?st2" by (rule adds_log_append) simp
    have a3: "adds is_inner_event ?st2 ?st3" by (rule adds_write_path) simp_all
    from a1 a2 have "adds is_inner_event st ?st2" by (rule adds_trans)
    from this a3 have "adds is_inner_event st ?st3" by (rule adds_trans)
    then show ?thesis using False d True by (simp add: direct_branch_unfold)
  next
    case ne: False
    let ?st2 = "save_direct L W url page (PBytes body) (of_opt_str ctype) (of_opt_int status) ?st1"
    have a2: "adds is_inner_event ?st1 ?st2" by (rule adds_save_direct)
    have a3: "adds is_inner_event ?st2 (page_done W url page ?st2)" by (rule adds_page_done_inner)
    from a1 a2 have "adds is_inner_event st ?st2" by (rule adds_trans)
    from this a3 have "adds is_inner_event st (page_done W url page ?st2)" by (rule adds_trans)
    then show ?thesis using False d ne by (simp add: direct_branch_unfold)
  qed
qed

lemma process_page_accepted:
  "accepts L P st page url \<Longrightarrow>
   process_page L W P page st = classify L W P url page (accepted_state url st)"
  by (simp add: accepts_def process_page_def classify_def accepted_state_def Let_def)

lemma process_page_seen:
  "getattr page ''url'' = PStr url \<Longrightarrow> url \<in> seen st \<Longrightarrow> process_page L W P page st = st"
  by (simp add: process_page_def)

lemma process_page_rejected:
  "getattr page ''url'' = PStr url \<Longrightarrow> \<not> policy_allows L P url \<Longrightarrow>
   process_page L W P page st = st"
  by (simp add: process_page_def)

lemma process_page_cases:
  "process_page L W P page st = st
   \<or> process_page L W P page st = raise_exc TypeError st
   \<or> (\<exists>url. accepts L P st page url
        \<and> process_page L W P page st = classify L W P url page (accepted_state url st))"
proof (cases "raised st = None \<and> truthy (getattr page ''url'')")
  case False
  then show ?thesis by (auto simp: process_page_def)
next
  case True
  show ?thesis
  proof (cases "getattr page ''url''")
    case (PStr url)
    show ?thesis
    proof (cases "url \<in> seen st \<or> \<not> policy_allows L P url")
      case True
      with PStr show ?thesis by (auto simp: process_page_def)
    next
      case False
      with True PStr have "accepts L P st page url" by (simp add: accepts_def)
      then show ?thesis using process_page_accepted by blast
    qed
  qed (use True in \<open>simp_all add: process_page_def\<close>)
qed

lemma adds_accepted_state:
  assumes "raised st = None" and "url \<notin> seen st"
  shows "adds is_page_event st (accepted_state url st)"
proof (rule addsI [where evs = "[SeenAdd url]"])
  show "trace (accepted_state url st) = trace st @ [SeenAdd url]"
    using assms(1) by (simp add: accepted_state_def emit_def)
  show "list_all is_page_event [SeenAdd url]" by simp
  show "seen (accepted_state url st) = seen st \<union> {u. SeenAdd u \<in> set [SeenAdd url]}"
    using assms(1) by (auto simp: accepted_state_def emit_def)
  show "seen st \<inter> {u. SeenAdd u \<in> set [SeenAdd url]} = {}"
    using assms(2) by simp
  show "raised st \<noteq> None \<longrightarrow> accepted_state url st = st" using assms(1) by simp
  show "raised (accepted_state url st) = None \<longrightarrow> raised st = None" using assms(1) by simp
qed

lemma adds_classify: "adds is_inner_event st (classify L W P url page st)"
proof (cases "page_is_html L page")
  case (Inl e)
  then show ?thesis by (simp add: classify_def adds_raise_exc)
next
  case (Inr b)
  show ?thesis
  proof (cases b)
    case True
    let ?st1 = "html_branch L W P url page st"
    have "adds is_inner_event st ?st1" by (rule adds_html_branch)
    moreover have "adds is_inner_event ?st1 (page_done W url page ?st1)"
      by (rule adds_page_done_inner)
    ultimately have "adds is_inner_event st (page_done W url page ?st1)" by (rule adds_trans)
    with Inr True show ?thesis by (simp add: classify_def)
  next
    case False
    with Inr show ?thesis by (simp add: classify_def adds_direct_branch)
  qed
qed

lemma adds_process_page: "adds is_page_event st (process_page L W P page st)"
proof -
  from process_page_cases [of L W P page st]
  consider "process_page L W P page st = st"
    | "process_page L W P page st = raise_exc TypeError st"
    | url where "accepts L P st page url"
        "process_page L W P page st = classify L W P url page (accepted_state url st)"
    by blast
  then show ?thesis
  proof cases
    case 1
    then show ?thesis by (simp add: adds_refl)
  next
    case 2
    then show ?thesis by (simp add: adds_raise_exc)
  next
    case 3
    from 3(1) have "adds is_page_event st (accepted_state url st)"
      by (simp add: accepts_def adds_accepted_state)
    moreover have "adds is_page_event (accepted_state url st)
                     (classify L W P url page (accepted_state url st))"
      by (rule adds_mono [OF adds_classify]) (rule inner_page_event)
    ultimately show ?thesis using 3(2) by (simp add: adds_trans)
  qed
qed

lemma adds_process_pages: "adds is_page_event st (fold (process_page L W P) pages st)"
  by (rule adds_fold) (rule adds_process_page)

lemma process_seed_unfold:
  "process_seed L W P seed st =
     (if raised st \<noteq> None then st
      else case render_stage W (trace st) seed of
             Inr ps \<Rightarrow>
               if ps = [] then fallback_then L W P seed (emit (Render seed) st)
               else fold (process_page L W P) ps (emit (Render seed) st)
           | Inl msg \<Rightarrow>
               if raised (log_append W (PlaywrightError seed msg) (emit (Render seed) st)) \<noteq> None
               then log_append W (PlaywrightError seed msg) (emit (Render seed) st)
               else fallback_then L W P seed
                      (log_append W (PlaywrightError seed msg) (emit (Render seed) st)))"
  by (simp add: process_seed_def fallback_then_def Let_def emit_def split: sum.splits option.splits)

lemma adds_any: "adds Q a b \<Longrightarrow> adds any_event a b"
  by (erule adds_mono) (simp add: any_event_def)

lemma adds_fallback_then: "adds any_event st (fallback_then L W P seed st)"
proof -
  have a1: "adds any_event st (emit (Fallback seed) st)"
    by (rule adds_emit) (simp_all add: any_event_def)
  show ?thesis
  proof (cases "fetch_html_fallback W (trace st) seed")
    case None
    with a1 show ?thesis by (simp add: fallback_then_def)
  next
    case (Some p)
    have "adds any_event (emit (Fallback seed) st)
            (fold (process_page L W P) [p] (emit (Fallback seed) st))"
      by (rule adds_any) (rule adds_process_pages)
    with a1 have "adds any_event st (fold (process_page L W P) [p] (emit (Fallback seed) st))"
      by (rule adds_trans)
    with Some show ?thesis by (simp add: fallback_then_def)
  qed
qed

lemma adds_process_seed: "adds any_event st (process_seed L W P seed st)"
proof (cases "raised st = None")
  case False
  then show ?thesis by (simp add: process_seed_unfold adds_refl)
next
  case True
  let ?st1 = "emit (Render seed) st"
  have a1: "adds any_event st ?st1"
    by (rule adds_emit) (simp_all add: any_event_def)
  show ?thesis
  proof (cases "render_stage W (trace st) seed")
    case (Inr ps)
    show ?thesis
    proof (cases "ps = []")
      case e: True
      have "adds any_event ?st1 (fallback_then L W P seed ?st1)" by (rule adds_fallback_then)
      with a1 have "adds any_event st (fallback_then L W P seed ?st1)" by (rule adds_trans)
      with True Inr e show ?thesis by (simp add: process_seed_unfold)
    next
      case ne: False
      have "adds any_event ?st1 (fold (process_page L W P) ps ?st1)"
        by (rule adds_any) (rule adds_process_pages)
      with a1 have "adds any_event st (fold (process_page L W P) ps ?st1)" by (rule adds_trans)
      with True Inr ne show ?thesis by (simp add: process_seed_unfold)
    qed
  next
    case (Inl msg)
    let ?st2 = "log_append W (PlaywrightError seed msg) ?st1"
    have "adds any_event ?st1 ?st2" by (rule adds_log_append) (simp add: any_event_def)
    with a1 have a2: "adds any_event st ?st2" by (rule adds_trans)
    have "adds any_event ?st2 (fallback_then L W P seed ?st2)" by (rule adds_fallback_then)
    with a2 have a3: "adds any_event st (fallback_then L W P seed ?st2)" by (rule adds_trans)
    from True Inl a2 a3 show ?thesis by (simp add: process_seed_unfold)
  qed
qed

lemma adds_crawl: "adds any_event (initial_state seen0) (crawl L W P seeds seen0)"
proof -
  let ?st1 = "fold (process_seed L W P) seeds (initial_state seen0)"
  have "adds any_event (initial_state seen0) ?st1"
    by (rule adds_fold) (rule adds_process_seed)
  moreover have "adds any_event ?st1 (save_seen W ?st1)"
    by (rule adds_save_seen) (simp add: any_event_def)
  ultimately show ?thesis unfolding crawl_def by (rule adds_trans)
qed

lemma adds_new_events:
  assumes "adds Q st st'"
  shows "trace st' = trace st @ new_events st st'" and "list_all Q (new_events st st')"
    and "seen st' = seen st \<union> {u. SeenAdd u \<in> set (new_events st st')}"
    and "seen st \<inter> {u. SeenAdd u \<in> set (new_events st st')} = {}"
proof -
  from assms obtain evs where 1: "trace st' = trace st @ evs" and q: "list_all Q evs"
    and f: "seen st' = seen st \<union> {u. SeenAdd u \<in> set evs}"
    and d: "seen st \<inter> {u. SeenAdd u \<in> set evs} = {}"
    by (rule addsE)
  from 1 have e: "new_events st st' = evs" by (simp add: new_events_def)
  show "trace st' = trace st @ new_events st st'" using 1 e by simp
  show "list_all Q (new_events st st')" using q e by simp
  show "seen st' = seen st \<union> {u. SeenAdd u \<in> set (new_events st st')}" using f e by simp
  show "seen st \<inter> {u. SeenAdd u \<in> set (new_events st st')} = {}" using d e by simp
qed

lemma process_pages_skip_seen:
  "U \<in> seen st \<Longrightarrow>
   fold (process_page L W P) pages st
     = fold (process_page L W P) (filter (\<lambda>p. getattr p ''url'' \<noteq> PStr U) pages) st"
proof (induction pages arbitrary: st)
  case Nil
  show ?case by simp
next
  case (Cons page pages)
  show ?case
  proof (cases "getattr page ''url'' = PStr U")
    case True
    from True Cons.prems have "process_page L W P page st = st" by (rule process_page_seen)
    with True Cons show ?thesis by simp
  next
    case False
    have "seen (process_page L W P page st)
            = seen st \<union> {u. SeenAdd u \<in> set (new_events st (process_page L W P page st))}"
      by (rule adds_new_events(3) [OF adds_process_page])
    with Cons.prems have "U \<in> seen (process_page L W P page st)" by simp
    with False Cons.IH show ?thesis by simp
  qed
qed

subsection \<open>Pages whose URL is in the frontier\<close>

text \<open>
  Claim C1, as the code has it. Let the URL \<open>U\<close> be in the frontier. A page whose URL
  is \<open>U\<close> leaves the whole state as it is: no event (no sidecar, no HTML file, no
  binary file, no log line), no counter and no frontier change; this holds for every
  library, world and policy, since the frontier is checked before the policy is
  evaluated. Processing a list of pages is the same as processing the list without the
  pages whose URL is \<open>U\<close>; \<open>U\<close> stays in the frontier and is never inserted again,
  over a list of pages and over a whole crawl that starts from this frontier. Nothing
  is said about the file links of other pages: the downloader does not look at the
  frontier.
\<close>

theorem frontier_skip:
  assumes "U \<in> seen st"
  shows "(getattr page ''url'' = PStr U \<longrightarrow> process_page L W P page st = st)
       \<and> fold (process_page L W P) pages st
           = fold (process_page L W P) (filter (\<lambda>p. getattr p ''url'' \<noteq> PStr U) pages) st
       \<and> U \<in> seen (fold (process_page L W P) pages st)
       \<and> SeenAdd U \<notin> set (new_events st (fold (process_page L W P) pages st))
       \<and> U \<in> seen (crawl L W P seeds (seen st))
       \<and> SeenAdd U \<notin> set (trace (crawl L W P seeds (seen st)))"
proof (intro conjI impI)
  assume "getattr page ''url'' = PStr U"
  from this assms show "process_page L W P page st = st" by (rule process_page_seen)
next
  from assms show "fold (process_page L W P) pages st
           = fold (process_page L W P) (filter (\<lambda>p. getattr p ''url'' \<noteq> PStr U) pages) st"
    by (rule process_pages_skip_seen)
next
  let ?st' = "fold (process_page L W P) pages st"
  have a: "adds is_page_event st ?st'" by (rule adds_process_pages)
  from adds_new_events(3) [OF a] assms show "U \<in> seen ?st'" by simp
  from adds_new_events(4) [OF a] assms show "SeenAdd U \<notin> set (new_events st ?st')" by blast
next
  let ?c = "crawl L W P seeds (seen st)"
  have a: "adds any_event (initial_state (seen st)) ?c" by (rule adds_crawl)
  have i: "seen (initial_state (seen st)) = seen st" "trace (initial_state (seen st)) = []"
    by (simp_all add: initial_state_def)
  from adds_new_events(3) [OF a] assms i show "U \<in> seen ?c" by simp
  have "new_events (initial_state (seen st)) ?c = trace ?c"
    by (simp add: new_events_def i)
  with adds_new_events(4) [OF a] assms i show "SeenAdd U \<notin> set (trace ?c)" by auto
qed

lemma adds_inner_seen:
  assumes "adds is_inner_event a b"
  shows "seen b = seen a"
proof -
  have "\<not> is_inner_event (SeenAdd u)" for u by simp
  with adds_new_events(2) [OF assms] have "SeenAdd u \<notin> set (new_events a b)" for u
    by (auto simp: list_all_iff)
  with adds_new_events(3) [OF assms] show ?thesis by simp
qed

lemma accepted_state_fields:
  assumes "raised st = None"
  shows "trace (accepted_state url st) = trace st @ [SeenAdd url]"
    and "seen (accepted_state url st) = insert url (seen st)"
    and "raised (accepted_state url st) = None"
  using assms by (simp_all add: accepted_state_def emit_def)

subsection \<open>The frontier insertion comes first\<close>

text \<open>
  Claim C2. When a page passes the frontier check and the policy check, the events of
  its processing start with the insertion of its URL into the frontier; every other
  event of the page (HTML body write, file body write, sidecar write, file-link
  download, log append, frontier checkpoint) comes after it, and the URL is in the
  frontier afterwards, whether or not an exception escapes. A page that does not pass
  the checks leaves no event and does not change the frontier.
\<close>

theorem frontier_insert_first:
  "(accepts L P st page url \<longrightarrow>
      (\<exists>rest. trace (process_page L W P page st) = trace st @ SeenAdd url # rest
              \<and> list_all is_inner_event rest)
      \<and> url \<in> seen (process_page L W P page st))
   \<and> ((\<forall>u. \<not> accepts L P st page u) \<longrightarrow>
        trace (process_page L W P page st) = trace st
        \<and> seen (process_page L W P page st) = seen st)"
proof (intro conjI impI)
  assume a: "accepts L P st page url"
  let ?acc = "accepted_state url st"
  let ?cl = "classify L W P url page ?acc"
  from a have eq: "process_page L W P page st = ?cl" by (rule process_page_accepted)
  from a have r: "raised st = None" by (simp add: accepts_def)
  have c: "adds is_inner_event ?acc ?cl" by (rule adds_classify)
  have "trace ?cl = trace ?acc @ new_events ?acc ?cl" by (rule adds_new_events(1) [OF c])
  then have t: "trace ?cl = trace st @ SeenAdd url # new_events ?acc ?cl"
    by (simp only: accepted_state_fields(1) [OF r] append_assoc append_Cons append_Nil)
  have q: "list_all is_inner_event (new_events ?acc ?cl)" by (rule adds_new_events(2) [OF c])
  from t q have "\<exists>rest. trace ?cl = trace st @ SeenAdd url # rest \<and> list_all is_inner_event rest"
    by blast
  then show "\<exists>rest. trace (process_page L W P page st) = trace st @ SeenAdd url # rest
                 \<and> list_all is_inner_event rest"
    by (simp only: eq)
  have "seen ?cl = seen ?acc" by (rule adds_inner_seen [OF c])
  then have "url \<in> seen ?cl" by (simp only: accepted_state_fields(2) [OF r] insertI1)
  then show "url \<in> seen (process_page L W P page st)" by (simp only: eq)
next
  assume n: "\<forall>u. \<not> accepts L P st page u"
  have t: "trace (raise_exc TypeError st) = trace st" and f: "seen (raise_exc TypeError st) = seen st"
    by (simp_all add: raise_exc_def)
  from n process_page_cases [of L W P page st]
  consider "process_page L W P page st = st"
    | "process_page L W P page st = raise_exc TypeError st"
    by blast
  then show "trace (process_page L W P page st) = trace st"
    by cases (simp_all only: t)
  from n process_page_cases [of L W P page st]
  consider "process_page L W P page st = st"
    | "process_page L W P page st = raise_exc TypeError st"
    by blast
  then show "seen (process_page L W P page st) = seen st"
    by cases (simp_all only: f)
qed

lemma process_page_seen_eq:
  "seen (process_page L W P page st) = seen st
   \<or> (\<exists>url. accepts L P st page url \<and> seen (process_page L W P page st) = insert url (seen st))"
proof -
  from process_page_cases [of L W P page st]
  consider "process_page L W P page st = st"
    | "process_page L W P page st = raise_exc TypeError st"
    | url where "accepts L P st page url"
        "process_page L W P page st = classify L W P url page (accepted_state url st)"
    by blast
  then show ?thesis
  proof cases
    case 1
    then show ?thesis by simp
  next
    case 2
    then show ?thesis by (simp add: raise_exc_def)
  next
    case 3
    from 3(1) have r: "raised st = None" by (simp add: accepts_def)
    have "seen (classify L W P url page (accepted_state url st)) = seen (accepted_state url st)"
      by (rule adds_inner_seen) (rule adds_classify)
    with 3 accepted_state_fields(2) [OF r] show ?thesis by auto
  qed
qed

lemma process_pages_seen_subset:
  "seen (fold (process_page L W P) pages st)
     \<subseteq> seen st \<union> {u. \<exists>p \<in> set pages. getattr p ''url'' = PStr u \<and> policy_allows L P u}"
proof (induction pages arbitrary: st)
  case Nil
  show ?case by simp
next
  case (Cons page pages)
  let ?st1 = "process_page L W P page st"
  have "seen ?st1 \<subseteq> seen st \<union> {u. getattr page ''url'' = PStr u \<and> policy_allows L P u}"
    using process_page_seen_eq [of L W P page st] by (auto simp: accepts_def)
  moreover have "seen (fold (process_page L W P) pages ?st1)
     \<subseteq> seen ?st1 \<union> {u. \<exists>p \<in> set pages. getattr p ''url'' = PStr u \<and> policy_allows L P u}"
    by (rule Cons.IH)
  ultimately show ?case by auto
qed

lemma download_links_seen:
  "seen (fold (download_link L W url page) raws st) = seen st"
proof -
  have "adds is_inner_event st (fold (download_link L W url page) raws st)"
    by (rule adds_mono [OF adds_download_links]) (rule quiet_inner_event, rule link_event_quiet)
  then show ?thesis by (rule adds_inner_seen)
qed

lemma emit_ok: "raised st = None \<Longrightarrow> emit e st = st\<lparr>trace := trace st @ [e]\<rparr>"
  by (simp add: emit_def)

lemma write_path_ok:
  "raised st = None \<Longrightarrow> \<not> write_fails W (trace st) path \<Longrightarrow>
   write_path W path e st = st\<lparr>trace := trace st @ [e]\<rparr>"
  by (simp add: write_path_def emit_def)


lemma download_link_saved:
  assumes r: "raised st = None"
    and g: "http_get_bytes W (trace st) (urljoin L url raw_url) = Some (body, ctype, status)"
    and b: "body \<noteq> []"
    and w1: "\<not> write_fails W (trace st @ [Download (urljoin L url raw_url)])
                (link_file_path L (urljoin L url raw_url) ctype)"
    and w2: "\<not> write_fails W
                (trace st @ [Download (urljoin L url raw_url),
                             WriteFile (link_file_path L (urljoin L url raw_url) ctype) body])
                (link_sidecar_path L (urljoin L url raw_url) ctype)"
  shows "download_link L W url page raw_url st =
           st\<lparr>trace := trace st @
                  saved_link_events L url page (urljoin L url raw_url) body ctype status,
              file_count := file_count st + 1\<rparr>"
proof -
  let ?f = "urljoin L url raw_url"
  let ?fp = "link_file_path L ?f ctype"
  let ?mp = "link_sidecar_path L ?f ctype"
  let ?m = "link_meta L url page ?f ctype (Some status)"
  let ?st1 = "emit (Download ?f) st"
  let ?st2 = "write_path W ?fp (WriteFile ?fp body) ?st1"
  let ?st3 = "write_path W ?mp (WriteMeta ?mp ?m) ?st2"
  from g have d: "download_file W (trace st) ?f = (body, ctype, Some status)"
    by (simp add: download_file_def)
  have eq: "download_link L W url page raw_url st = count_file ?st3"
    using r d b
    by (simp add: download_link_def Let_def link_file_path_def link_sidecar_path_def
        link_meta_def)
  have 1: "?st1 = st\<lparr>trace := trace st @ [Download ?f]\<rparr>"
    using r by (rule emit_ok)
  have 2: "?st2 = st\<lparr>trace := trace st @ [Download ?f, WriteFile ?fp body]\<rparr>"
    unfolding 1 using r w1 by (simp add: write_path_ok)
  have 3: "?st3 = st\<lparr>trace := trace st @ [Download ?f, WriteFile ?fp body, WriteMeta ?mp ?m]\<rparr>"
    unfolding 2 using r w2 by (simp add: write_path_ok)
  show ?thesis
    unfolding eq 3 using r by (simp add: count_file_def saved_link_events_def)
qed

theorem frontier_skip_witness:
  "''https://h/a.pdf'' \<in> seen (initial_state {''https://h/a.pdf''})
   \<and> process_page example_lib example_world open_policy pdf_page
         (initial_state {''https://h/a.pdf''}) = initial_state {''https://h/a.pdf''}
   \<and> ''https://h/a.pdf'' \<in> seen (crawl example_lib example_world open_policy
         [''https://h/index''] (seen (initial_state {''https://h/a.pdf''})))"
proof -
  have h: "''https://h/a.pdf'' \<in> seen (initial_state {''https://h/a.pdf''})"
    by (simp add: initial_state_def)
  have u: "getattr pdf_page ''url'' = PStr ''https://h/a.pdf''"
    by (simp add: pdf_page_def)
  from frontier_skip [OF h, of pdf_page example_lib example_world open_policy "[]"
      "[''https://h/index'']"] h u
  show ?thesis by blast
qed

theorem frontier_insert_first_witness:
  "accepts example_lib open_policy (initial_state {}) pdf_page ''https://h/a.pdf''
   \<and> (\<exists>rest. trace (process_page example_lib example_world open_policy pdf_page (initial_state {}))
          = trace (initial_state {}) @ SeenAdd ''https://h/a.pdf'' # rest
          \<and> list_all is_inner_event rest)
   \<and> ''https://h/a.pdf'' \<in> seen (process_page example_lib example_world open_policy pdf_page
                                 (initial_state {}))"
proof -
  have a: "accepts example_lib open_policy (initial_state {}) pdf_page ''https://h/a.pdf''"
    by (simp add: accepts_def initial_state_def pdf_page_def policy_allows_def is_allowed_def
        open_policy_def)
  from frontier_insert_first [of example_lib open_policy "initial_state {}" pdf_page
      "''https://h/a.pdf''" example_world] a
  show ?thesis by blast
qed

lemma quiet_no_sidecar: "is_quiet e \<Longrightarrow> \<not> is_page_sidecar url e"
  by (cases e) auto

lemma page_sidecars_quiet: "list_all is_quiet evs \<Longrightarrow> page_sidecars url evs = 0"
  by (induction evs) (auto simp: page_sidecars_def quiet_no_sidecar)

lemma page_sidecars_append:
  "page_sidecars url (xs @ ys) = page_sidecars url xs + page_sidecars url ys"
  by (simp add: page_sidecars_def)

lemma one_sidecarI:
  assumes "trace st' = trace st @ pre @ [WriteMeta path m] @ post"
    and "list_all is_quiet pre" and "list_all is_quiet post"
    and "is_page_sidecar url (WriteMeta path m)"
  shows "one_sidecar url st st'"
  unfolding one_sidecar_def using assms by blast

lemma one_sidecar_count:
  assumes "one_sidecar url a b"
  shows "page_sidecars url (new_events a b) = 1"
proof -
  from assms obtain pre path m post where t: "trace b = trace a @ pre @ [WriteMeta path m] @ post"
    and q: "list_all is_quiet pre" "list_all is_quiet post"
    and s: "is_page_sidecar url (WriteMeta path m)"
    unfolding one_sidecar_def by blast
  from t have "new_events a b = pre @ [WriteMeta path m] @ post"
    by (simp add: new_events_def)
  then have "page_sidecars url (new_events a b)
      = page_sidecars url pre + page_sidecars url [WriteMeta path m] + page_sidecars url post"
    by (simp only: page_sidecars_append add.assoc)
  moreover have "page_sidecars url [WriteMeta path m] = 1"
    using s by (simp add: page_sidecars_def)
  ultimately show ?thesis
    using q by (simp add: page_sidecars_quiet)
qed

lemma quiet_then_one:
  assumes "adds is_quiet a b" and "one_sidecar url b c"
  shows "one_sidecar url a c"
proof -
  from assms(2) obtain pre path m post where t: "trace c = trace b @ pre @ [WriteMeta path m] @ post"
    and q: "list_all is_quiet pre" "list_all is_quiet post"
    and s: "is_page_sidecar url (WriteMeta path m)"
    unfolding one_sidecar_def by blast
  have "trace c = trace a @ (new_events a b @ pre) @ [WriteMeta path m] @ post"
    using t adds_new_events(1) [OF assms(1)] by simp
  moreover have "list_all is_quiet (new_events a b @ pre)"
    using q(1) adds_new_events(2) [OF assms(1)] by simp
  ultimately show ?thesis using q(2) s by (rule one_sidecarI)
qed

lemma one_then_quiet:
  assumes "one_sidecar url a b" and "adds is_quiet b c"
  shows "one_sidecar url a c"
proof -
  from assms(1) obtain pre path m post where t: "trace b = trace a @ pre @ [WriteMeta path m] @ post"
    and q: "list_all is_quiet pre" "list_all is_quiet post"
    and s: "is_page_sidecar url (WriteMeta path m)"
    unfolding one_sidecar_def by blast
  have "trace c = trace a @ pre @ [WriteMeta path m] @ (post @ new_events b c)"
    using t adds_new_events(1) [OF assms(2)] by simp
  moreover have "list_all is_quiet (post @ new_events b c)"
    using q(2) adds_new_events(2) [OF assms(2)] by simp
  ultimately show ?thesis using q(1) s by (intro one_sidecarI [where pre = pre and post = "post @ new_events b c"])
qed

lemma adds_raised_back: "adds Q a b \<Longrightarrow> raised b = None \<Longrightarrow> raised a = None"
  by (erule addsE) simp

lemma write_path_not_raised:
  assumes "raised (write_path W path e st) = None"
  shows "trace (write_path W path e st) = trace st @ [e]" and "raised st = None"
  using assms by (simp_all add: write_path_def raise_exc_def emit_def split: if_splits)

lemma write_sidecar_one:
  assumes "raised (write_path W path (WriteMeta path m) st) = None"
    and "is_page_sidecar url (WriteMeta path m)"
  shows "one_sidecar url st (write_path W path (WriteMeta path m) st)"
proof (rule one_sidecarI [where pre = "[]" and post = "[]"])
  show "trace (write_path W path (WriteMeta path m) st) = trace st @ [] @ [WriteMeta path m] @ []"
    using write_path_not_raised(1) [OF assms(1)] by simp
qed (use assms(2) in simp_all)

lemma raise_exc_raised: "raised (raise_exc e st) \<noteq> None"
  by (simp add: raise_exc_def)

lemma html_branch_one:
  assumes "raised (html_branch L W P url page st) = None"
  shows "\<exists>links. page_links L page = Inr links \<and> one_sidecar url st (html_branch L W P url page st)"
proof (cases "page_links L page")
  case (Inl e)
  with assms raise_exc_raised show ?thesis by (simp add: html_branch_unfold)
next
  case (Inr out_links)
  let ?st1 = "html_written L W url page st"
  let ?mp = "page_sidecar_path L url"
  let ?m = "html_meta L url page out_links"
  let ?st2 = "write_path W ?mp (WriteMeta ?mp ?m) ?st1"
  let ?st3 = "fold (download_link L W url page)
            (filter (\<lambda>l. looks_like_file l (file_exts P)) out_links) ?st2"
  have eq: "html_branch L W P url page st = ?st3"
    using Inr by (simp add: html_branch_unfold)
  have a3: "adds is_quiet ?st2 ?st3"
    by (rule adds_mono [OF adds_download_links]) (rule link_event_quiet)
  from assms have "raised ?st3 = None" by (simp only: eq)
  with a3 have r2: "raised ?st2 = None" by (rule adds_raised_back)
  have "is_page_sidecar url (WriteMeta ?mp ?m)" by (simp add: html_meta_def)
  with r2 have "one_sidecar url ?st1 ?st2" by (rule write_sidecar_one)
  with adds_html_written have "one_sidecar url st ?st2" by (rule quiet_then_one)
  from this a3 have "one_sidecar url st ?st3" by (rule one_then_quiet)
  with Inr show ?thesis by (simp only: eq) simp
qed

lemma save_direct_one:
  assumes "raised (save_direct L W url page content ctype status st) = None"
  shows "one_sidecar url st (save_direct L W url page content ctype status st)"
proof (cases "ext_of_value ctype")
  case (Inl e)
  with assms raise_exc_raised show ?thesis by (simp add: save_direct_unfold)
next
  case (Inr ext)
  show ?thesis
  proof (cases "\<exists>body. content = PBytes body")
    case False
    then have "save_direct L W url page content ctype status st = raise_exc TypeError st"
      using Inr by (cases content) (simp_all add: save_direct_unfold)
    with assms raise_exc_raised show ?thesis by simp
  next
    case True
    then obtain body where b: "content = PBytes body" ..
    let ?fp = "path_join OUTPUT_FILES (safe_filename L url ext)"
    let ?mp = "path_join OUTPUT_META (safe_filename L url ext @ ''.json'')"
    let ?m = "direct_meta url page ctype status ?fp"
    let ?st1 = "write_path W ?fp (WriteFile ?fp body) st"
    let ?st2 = "write_path W ?mp (WriteMeta ?mp ?m) ?st1"
    have eq: "save_direct L W url page content ctype status st = count_file ?st2"
      using Inr b by (simp add: save_direct_unfold)
    have a1: "adds is_quiet st ?st1" by (rule adds_write_path) simp_all
    have a3: "adds is_quiet ?st2 (count_file ?st2)" by (rule adds_count_file)
    from assms have "raised (count_file ?st2) = None" by (simp only: eq)
    with a3 have r2: "raised ?st2 = None" by (rule adds_raised_back)
    have "is_page_sidecar url (WriteMeta ?mp ?m)" by (simp add: direct_meta_def)
    with r2 have "one_sidecar url ?st1 ?st2" by (rule write_sidecar_one)
    with a1 have "one_sidecar url st ?st2" by (rule quiet_then_one)
    from this a3 have "one_sidecar url st (count_file ?st2)" by (rule one_then_quiet)
    then show ?thesis by (simp only: eq)
  qed
qed

lemma direct_branch_one:
  assumes "raised (direct_branch L W url page st) = None"
  shows "one_sidecar url st (direct_branch L W url page st)"
proof (cases "truthy (getattr page ''content'')")
  case True
  let ?st1 = "save_direct L W url page (getattr page ''content'') (page_content_type page)
                (getattr page ''status'') st"
  have eq: "direct_branch L W url page st = page_done W url page ?st1"
    using True by (simp add: direct_branch_unfold)
  from assms have "raised (page_done W url page ?st1) = None" by (simp only: eq)
  with adds_page_done have "raised ?st1 = None" by (rule adds_raised_back)
  then have "one_sidecar url st ?st1" by (rule save_direct_one)
  from this adds_page_done have "one_sidecar url st (page_done W url page ?st1)"
    by (rule one_then_quiet)
  then show ?thesis by (simp only: eq)
next
  case False
  obtain body ctype status where d: "download_file W (trace st) url = (body, ctype, status)"
    by (cases "download_file W (trace st) url") auto
  let ?st1 = "emit (Download url) st"
  have a1: "adds is_quiet st ?st1" by (rule adds_emit) simp_all
  show ?thesis
  proof (cases "body = []")
    case True
    let ?st2 = "log_append W (DirectFileError url) ?st1"
    let ?mp = "page_sidecar_path L url"
    let ?m = "empty_meta url page ctype status"
    let ?st3 = "write_path W ?mp (WriteMeta ?mp ?m) ?st2"
    have eq: "direct_branch L W url page st = ?st3"
      using False d True by (simp add: direct_branch_unfold)
    have a2: "adds is_quiet ?st1 ?st2" by (rule adds_log_append) simp
    from a1 a2 have a12: "adds is_quiet st ?st2" by (rule adds_trans)
    from assms have r3: "raised ?st3 = None" by (simp only: eq)
    have "is_page_sidecar url (WriteMeta ?mp ?m)" by (simp add: empty_meta_def)
    with r3 have "one_sidecar url ?st2 ?st3" by (rule write_sidecar_one)
    with a12 have "one_sidecar url st ?st3" by (rule quiet_then_one)
    then show ?thesis by (simp only: eq)
  next
    case ne: False
    let ?st2 = "save_direct L W url page (PBytes body) (of_opt_str ctype) (of_opt_int status) ?st1"
    have eq: "direct_branch L W url page st = page_done W url page ?st2"
      using False d ne by (simp add: direct_branch_unfold)
    from assms have "raised (page_done W url page ?st2) = None" by (simp only: eq)
    with adds_page_done have "raised ?st2 = None" by (rule adds_raised_back)
    then have "one_sidecar url ?st1 ?st2" by (rule save_direct_one)
    with a1 have "one_sidecar url st ?st2" by (rule quiet_then_one)
    from this adds_page_done have "one_sidecar url st (page_done W url page ?st2)"
      by (rule one_then_quiet)
    then show ?thesis by (simp only: eq)
  qed
qed

lemma classify_one:
  assumes "raised (classify L W P url page st) = None"
  shows "one_sidecar url st (classify L W P url page st)"
proof (cases "page_is_html L page")
  case (Inl e)
  with assms raise_exc_raised show ?thesis by (simp add: classify_def)
next
  case (Inr b)
  show ?thesis
  proof (cases b)
    case True
    let ?st1 = "html_branch L W P url page st"
    have eq: "classify L W P url page st = page_done W url page ?st1"
      using Inr True by (simp add: classify_def)
    from assms have "raised (page_done W url page ?st1) = None" by (simp only: eq)
    with adds_page_done have "raised ?st1 = None" by (rule adds_raised_back)
    then have "one_sidecar url st ?st1" using html_branch_one by blast
    from this adds_page_done have "one_sidecar url st (page_done W url page ?st1)"
      by (rule one_then_quiet)
    then show ?thesis by (simp only: eq)
  next
    case False
    then have eq: "classify L W P url page st = direct_branch L W url page st"
      using Inr by (simp add: classify_def)
    from assms have "raised (direct_branch L W url page st) = None" by (simp only: eq)
    then have "one_sidecar url st (direct_branch L W url page st)" by (rule direct_branch_one)
    then show ?thesis by (simp only: eq)
  qed
qed

lemma new_events_eq: "trace b = trace a @ evs \<Longrightarrow> new_events a b = evs"
  by (simp add: new_events_def)

lemma count_html_fields:
  "trace (count_html st) = trace st" "raised (count_html st) = raised st"
  by (simp_all add: count_html_def)

lemma html_written_trace:
  assumes "raised (html_written L W url page st) = None"
  shows "trace (html_written L W url page st) = trace st @ html_events L url page"
proof (cases "html_text_of L page \<noteq> []")
  case False
  then show ?thesis by (simp add: html_written_def html_events_def)
next
  case True
  let ?e = "WriteHtml (html_path_of L url) (html_text_of L page)"
  let ?st1 = "write_path W (html_path_of L url) ?e st"
  have eq: "html_written L W url page st = count_html ?st1"
    using True by (simp add: html_written_def)
  from assms have "raised ?st1 = None" by (simp only: eq count_html_fields)
  then have "trace ?st1 = trace st @ [?e]" by (rule write_path_not_raised(1))
  moreover have "trace (html_written L W url page st) = trace ?st1"
    by (simp only: eq count_html_fields)
  moreover have "html_events L url page = [?e]"
    using True by (simp add: html_events_def)
  ultimately show ?thesis by simp
qed

lemma html_branch_trace:
  assumes "raised (html_branch L W P url page st) = None"
  shows "\<exists>links rest. page_links L page = Inr links
           \<and> trace (html_branch L W P url page st)
               = trace st @ html_events L url page
                   @ WriteMeta (page_sidecar_path L url) (html_meta L url page links) # rest
           \<and> list_all is_quiet rest"
proof (cases "page_links L page")
  case (Inl e)
  with assms raise_exc_raised show ?thesis by (simp add: html_branch_unfold)
next
  case (Inr out_links)
  let ?st1 = "html_written L W url page st"
  let ?mp = "page_sidecar_path L url"
  let ?m = "html_meta L url page out_links"
  let ?st2 = "write_path W ?mp (WriteMeta ?mp ?m) ?st1"
  let ?st3 = "fold (download_link L W url page)
            (filter (\<lambda>l. looks_like_file l (file_exts P)) out_links) ?st2"
  have eq: "html_branch L W P url page st = ?st3"
    using Inr by (simp add: html_branch_unfold)
  have a3: "adds is_quiet ?st2 ?st3"
    by (rule adds_mono [OF adds_download_links]) (rule link_event_quiet)
  from assms have "raised ?st3 = None" by (simp only: eq)
  with a3 have r2: "raised ?st2 = None" by (rule adds_raised_back)
  then have t2: "trace ?st2 = trace ?st1 @ [WriteMeta ?mp ?m]" and r1: "raised ?st1 = None"
    by (rule write_path_not_raised)+
  from r1 have t1: "trace ?st1 = trace st @ html_events L url page"
    by (rule html_written_trace)
  have "trace ?st3 = trace ?st2 @ new_events ?st2 ?st3"
    by (rule adds_new_events(1) [OF a3])
  then have "trace ?st3 = trace st @ html_events L url page @ WriteMeta ?mp ?m # new_events ?st2 ?st3"
    by (simp only: t2 t1 append_assoc append_Cons append_Nil)
  moreover have "list_all is_quiet (new_events ?st2 ?st3)"
    by (rule adds_new_events(2) [OF a3])
  ultimately have "page_links L page = Inr out_links
      \<and> trace ?st3 = trace st @ html_events L url page @ WriteMeta ?mp ?m # new_events ?st2 ?st3
      \<and> list_all is_quiet (new_events ?st2 ?st3)"
    using Inr by blast
  then show ?thesis unfolding eq by blast
qed

lemma direct_branch_empty_trace:
  assumes r: "raised (direct_branch L W url page st) = None"
    and c: "\<not> truthy (getattr page ''content'')"
    and d: "download_file W (trace st) url = ([], ctype, status)"
    and s: "raised st = None"
  shows "trace (direct_branch L W url page st)
           = trace st @ [Download url, LogAppend (DirectFileError url),
                         WriteMeta (page_sidecar_path L url) (empty_meta url page ctype status)]"
proof -
  let ?st1 = "emit (Download url) st"
  let ?st2 = "log_append W (DirectFileError url) ?st1"
  let ?mp = "page_sidecar_path L url"
  let ?m = "empty_meta url page ctype status"
  let ?st3 = "write_path W ?mp (WriteMeta ?mp ?m) ?st2"
  have eq: "direct_branch L W url page st = ?st3"
    using c d by (simp add: direct_branch_unfold)
  from r have r3: "raised ?st3 = None" by (simp only: eq)
  then have t3: "trace ?st3 = trace ?st2 @ [WriteMeta ?mp ?m]" and r2: "raised ?st2 = None"
    by (rule write_path_not_raised)+
  from r2 have "raised (write_path W LOG_PATH (LogAppend (DirectFileError url)) ?st1) = None"
    by (simp only: log_append_def)
  then have "trace (write_path W LOG_PATH (LogAppend (DirectFileError url)) ?st1)
               = trace ?st1 @ [LogAppend (DirectFileError url)]"
    by (rule write_path_not_raised(1))
  then have t2: "trace ?st2 = trace ?st1 @ [LogAppend (DirectFileError url)]"
    by (simp only: log_append_def)
  have t1: "trace ?st1 = trace st @ [Download url]"
    using s by (simp add: emit_def)
  show ?thesis
    by (simp only: eq t3 t2 t1 append_assoc append_Cons append_Nil)
qed

subsection \<open>One sidecar for every accepted page\<close>

text \<open>
  Claim C3, as the code has it. When a page passes the frontier check and the policy
  check and no exception escapes while it is processed, exactly one sidecar of the page
  itself is written for its URL (the sidecars of the file links downloaded from the
  page carry the note \<open>discovered from ...\<close> and are not counted). On the navigable
  path the events of the page are the frontier insertion, the HTML body if the HTML
  text is not empty, then the sidecar with the harvested links, then events that are no
  page sidecar; so the sidecar is written also when the HTML text is empty. On the
  direct-file path, when the page carries no content and the download is empty, the
  events are exactly the frontier insertion, the download, the log line and the sidecar
  with the note \<open>empty binary\<close> and no file path: no file is written.
\<close>

theorem page_sidecar_exactly_one:
  assumes a: "accepts L P st page url"
    and r: "raised (process_page L W P page st) = None"
  shows "page_sidecars url (new_events st (process_page L W P page st)) = 1
    \<and> (page_is_html L page = Inr True \<longrightarrow>
         (\<exists>links rest. page_links L page = Inr links
            \<and> new_events st (process_page L W P page st)
                = SeenAdd url # html_events L url page
                    @ WriteMeta (page_sidecar_path L url) (html_meta L url page links) # rest
            \<and> list_all is_quiet rest))
    \<and> (page_is_html L page = Inr False \<and> \<not> truthy (getattr page ''content'')
         \<and> download_file W (trace st @ [SeenAdd url]) url = ([], ctype, status) \<longrightarrow>
         new_events st (process_page L W P page st)
           = [SeenAdd url, Download url, LogAppend (DirectFileError url),
              WriteMeta (page_sidecar_path L url) (empty_meta url page ctype status)])"
proof (intro conjI impI)
  let ?acc = "accepted_state url st"
  let ?cl = "classify L W P url page ?acc"
  from a have eq: "process_page L W P page st = ?cl" by (rule process_page_accepted)
  from a have s: "raised st = None" by (simp add: accepts_def)
  note acc = accepted_state_fields [OF s, of url]
  from r have rc: "raised ?cl = None" by (simp only: eq)
  have c: "adds is_inner_event ?acc ?cl" by (rule adds_classify)
  have "trace ?cl = trace ?acc @ new_events ?acc ?cl" by (rule adds_new_events(1) [OF c])
  then have "trace ?cl = trace st @ SeenAdd url # new_events ?acc ?cl"
    by (simp only: acc(1) append_assoc append_Cons append_Nil)
  then have n: "new_events st ?cl = SeenAdd url # new_events ?acc ?cl"
    by (rule new_events_eq)
  have "page_sidecars url (new_events ?acc ?cl) = 1"
    by (rule one_sidecar_count) (rule classify_one [OF rc])
  then have "page_sidecars url (new_events st ?cl) = 1"
    by (simp add: n page_sidecars_def)
  then show "page_sidecars url (new_events st (process_page L W P page st)) = 1"
    by (simp only: eq)
  {
    assume h: "page_is_html L page = Inr True"
    let ?hb = "html_branch L W P url page ?acc"
    have ceq: "?cl = page_done W url page ?hb"
      using h by (simp add: classify_def)
    have pd: "adds is_quiet ?hb (page_done W url page ?hb)" by (rule adds_page_done)
    from rc have "raised (page_done W url page ?hb) = None" by (simp only: ceq)
    with pd have "raised ?hb = None" by (rule adds_raised_back)
    then obtain links rest where l: "page_links L page = Inr links"
      and t: "trace ?hb = trace ?acc @ html_events L url page
                   @ WriteMeta (page_sidecar_path L url) (html_meta L url page links) # rest"
      and q: "list_all is_quiet rest"
      using html_branch_trace by blast
    let ?rest = "rest @ new_events ?hb (page_done W url page ?hb)"
    have "trace (page_done W url page ?hb) = trace ?hb @ new_events ?hb (page_done W url page ?hb)"
      by (rule adds_new_events(1) [OF pd])
    then have "trace (page_done W url page ?hb) = trace st @ SeenAdd url # html_events L url page
         @ WriteMeta (page_sidecar_path L url) (html_meta L url page links) # ?rest"
      by (simp only: t acc(1) append_assoc append_Cons append_Nil)
    then have "new_events st (page_done W url page ?hb) = SeenAdd url # html_events L url page
         @ WriteMeta (page_sidecar_path L url) (html_meta L url page links) # ?rest"
      by (rule new_events_eq)
    moreover have "list_all is_quiet ?rest"
      using q adds_new_events(2) [OF pd] by simp
    ultimately have "page_links L page = Inr links
            \<and> new_events st (page_done W url page ?hb)
                = SeenAdd url # html_events L url page
                    @ WriteMeta (page_sidecar_path L url) (html_meta L url page links) # ?rest
            \<and> list_all is_quiet ?rest"
      using l by blast
    then show "\<exists>links rest. page_links L page = Inr links
            \<and> new_events st (process_page L W P page st)
                = SeenAdd url # html_events L url page
                    @ WriteMeta (page_sidecar_path L url) (html_meta L url page links) # rest
            \<and> list_all is_quiet rest"
      unfolding eq ceq by blast
  }
  {
    assume h: "page_is_html L page = Inr False \<and> \<not> truthy (getattr page ''content'')
         \<and> download_file W (trace st @ [SeenAdd url]) url = ([], ctype, status)"
    have ceq: "?cl = direct_branch L W url page ?acc"
      using h by (simp add: classify_def)
    from rc have rd: "raised (direct_branch L W url page ?acc) = None" by (simp only: ceq)
    from h have d: "download_file W (trace ?acc) url = ([], ctype, status)"
      by (simp only: acc(1))
    from h have nc: "\<not> truthy (getattr page ''content'')" by blast
    have "trace (direct_branch L W url page ?acc)
           = trace ?acc @ [Download url, LogAppend (DirectFileError url),
                         WriteMeta (page_sidecar_path L url) (empty_meta url page ctype status)]"
      using rd nc d acc(3) by (rule direct_branch_empty_trace)
    then have "trace (direct_branch L W url page ?acc)
           = trace st @ [SeenAdd url, Download url, LogAppend (DirectFileError url),
                         WriteMeta (page_sidecar_path L url) (empty_meta url page ctype status)]"
      by (simp only: acc(1) append_assoc append_Cons append_Nil)
    then have "new_events st (direct_branch L W url page ?acc)
           = [SeenAdd url, Download url, LogAppend (DirectFileError url),
              WriteMeta (page_sidecar_path L url) (empty_meta url page ctype status)]"
      by (rule new_events_eq)
    then show "new_events st (process_page L W P page st)
           = [SeenAdd url, Download url, LogAppend (DirectFileError url),
              WriteMeta (page_sidecar_path L url) (empty_meta url page ctype status)]"
      by (simp only: eq ceq)
  }
qed

lemma page_event_no_fallback: "list_all is_page_event evs \<Longrightarrow> filter is_fallback evs = []"
proof (induction evs)
  case Nil
  show ?case by simp
next
  case (Cons e evs)
  then show ?case by (cases e) simp_all
qed

lemma render_failed_state:
  assumes s: "raised st = None"
    and w: "\<not> write_fails W (trace st @ [Render seed]) LOG_PATH"
  shows "log_append W (PlaywrightError seed msg) (emit (Render seed) st)
           = st\<lparr>trace := trace st @ [Render seed, LogAppend (PlaywrightError seed msg)]\<rparr>"
proof -
  have 1: "emit (Render seed) st = st\<lparr>trace := trace st @ [Render seed]\<rparr>"
    using s by (rule emit_ok)
  show ?thesis
    unfolding 1 log_append_def using s w by (simp add: write_path_ok)
qed

subsection \<open>The fallback after a failed render\<close>

text \<open>
  Claim C6, as the code has it. When the render stage raises for a seed and the line
  about the failure can be appended to the attempt log, the events of the seed start
  with the render call, that log line and one call of the fallback fetcher, and no other
  call of the fallback fetcher follows: it is invoked exactly once. If the fallback
  fails too, these three events are all that happens: no page is processed, the frontier
  and the counters are unchanged, and exactly one line has been appended to the log.
\<close>

theorem fallback_once:
  assumes s: "raised st = None"
    and rs: "render_stage W (trace st) seed = Inl msg"
    and w: "\<not> write_fails W (trace st @ [Render seed]) LOG_PATH"
  shows "(\<exists>rest. new_events st (process_seed L W P seed st)
                  = [Render seed, LogAppend (PlaywrightError seed msg), Fallback seed] @ rest
                \<and> list_all is_page_event rest)
       \<and> length (filter is_fallback (new_events st (process_seed L W P seed st))) = 1
       \<and> (fetch_html_fallback W (trace st @ [Render seed, LogAppend (PlaywrightError seed msg)])
             seed = None \<longrightarrow>
           process_seed L W P seed st
             = st\<lparr>trace := trace st @ [Render seed, LogAppend (PlaywrightError seed msg),
                                       Fallback seed]\<rparr>)"
proof -
  let ?base = "trace st @ [Render seed, LogAppend (PlaywrightError seed msg)]"
  let ?st2 = "st\<lparr>trace := ?base\<rparr>"
  let ?st3 = "st\<lparr>trace := trace st @ [Render seed, LogAppend (PlaywrightError seed msg),
                                    Fallback seed]\<rparr>"
  have l: "log_append W (PlaywrightError seed msg) (emit (Render seed) st) = ?st2"
    using s w by (rule render_failed_state)
  have r2: "raised ?st2 = None" using s by simp
  have t2: "trace ?st2 = ?base" by simp
  have eq: "process_seed L W P seed st = fallback_then L W P seed ?st2"
    using s rs r2 by (simp add: process_seed_unfold l)
  have e3: "emit (Fallback seed) ?st2 = ?st3"
    using r2 by (simp add: emit_def)
  have t3: "trace ?st3 = trace st @ [Render seed, LogAppend (PlaywrightError seed msg), Fallback seed]"
    by simp
  have none: "fetch_html_fallback W ?base seed = None \<Longrightarrow>
                fallback_then L W P seed ?st2 = ?st3"
    by (simp add: fallback_then_def e3)
  have ex: "\<exists>rest. new_events st (fallback_then L W P seed ?st2)
                  = [Render seed, LogAppend (PlaywrightError seed msg), Fallback seed] @ rest
                \<and> list_all is_page_event rest"
  proof (cases "fetch_html_fallback W ?base seed")
    case None
    then have "fallback_then L W P seed ?st2 = ?st3" by (rule none)
    then have "trace (fallback_then L W P seed ?st2)
                 = trace st @ [Render seed, LogAppend (PlaywrightError seed msg), Fallback seed] @ []"
      by simp
    then have "new_events st (fallback_then L W P seed ?st2)
                 = [Render seed, LogAppend (PlaywrightError seed msg), Fallback seed] @ []"
      by (rule new_events_eq)
    then show ?thesis by (intro exI [of _ "[]"]) simp
  next
    case (Some p)
    let ?st4 = "fold (process_page L W P) [p] ?st3"
    have f: "fallback_then L W P seed ?st2 = ?st4"
      using Some by (simp add: fallback_then_def e3)
    have a: "adds is_page_event ?st3 ?st4" by (rule adds_process_pages)
    have "trace ?st4 = trace ?st3 @ new_events ?st3 ?st4" by (rule adds_new_events(1) [OF a])
    then have "trace ?st4 = trace st @ [Render seed, LogAppend (PlaywrightError seed msg), Fallback seed]
                 @ new_events ?st3 ?st4"
      by (simp only: t3 append_assoc)
    then have "new_events st ?st4 = [Render seed, LogAppend (PlaywrightError seed msg), Fallback seed]
                 @ new_events ?st3 ?st4"
      by (rule new_events_eq)
    moreover have "list_all is_page_event (new_events ?st3 ?st4)"
      by (rule adds_new_events(2) [OF a])
    ultimately show ?thesis unfolding f by blast
  qed
  then obtain rest where n: "new_events st (fallback_then L W P seed ?st2)
                  = [Render seed, LogAppend (PlaywrightError seed msg), Fallback seed] @ rest"
    and q: "list_all is_page_event rest" by blast
  have "filter is_fallback (new_events st (fallback_then L W P seed ?st2)) = [Fallback seed]"
    unfolding n using page_event_no_fallback [OF q] by simp
  then have c: "length (filter is_fallback (new_events st (fallback_then L W P seed ?st2))) = 1"
    by simp
  from ex c none show ?thesis unfolding eq by (intro conjI impI) blast+
qed





subsection \<open>Which failures are contained\<close>



text \<open>
  Claim C6 as stated fails: when the attempt log cannot be written, the exception of the
  append escapes from the handler of the render failure, and the fallback fetcher is
  never invoked.
\<close>

theorem fallback_skipped_counterexample:
  "render_stage log_failing_world (trace (initial_state {})) ''https://h/x'' = Inl ''boom''
   \<and> process_seed example_lib log_failing_world open_policy ''https://h/x'' (initial_state {})
      = \<lparr>seen = {}, fetched_count = 0, file_count = 0, html_count = 0,
         trace = [Render ''https://h/x''], raised = Some OSError\<rparr>"
  by code_simp

text \<open>
  Claim C3 as stated fails: when the HTML body of an accepted navigable page cannot be
  written, the exception escapes and no sidecar is written for the page.
\<close>

theorem no_sidecar_counterexample:
  "accepts example_lib open_policy (initial_state {}) index_page ''https://h/index''
   \<and> page_is_html example_lib index_page = Inr True
   \<and> process_page example_lib readonly_output_world open_policy index_page (initial_state {})
      = \<lparr>seen = {''https://h/index''}, fetched_count = 1, file_count = 0, html_count = 0,
         trace = [SeenAdd ''https://h/index''], raised = Some OSError\<rparr>
   \<and> page_sidecars ''https://h/index''
        (new_events (initial_state {})
           (process_page example_lib readonly_output_world open_policy index_page
              (initial_state {}))) = 0"
  by code_simp

theorem page_sidecar_exactly_one_witness:
  "accepts example_lib open_policy (initial_state {}) missing_page ''https://h/missing''
   \<and> raised (process_page example_lib example_world open_policy missing_page (initial_state {}))
       = None
   \<and> page_sidecars ''https://h/missing''
        (new_events (initial_state {})
           (process_page example_lib example_world open_policy missing_page (initial_state {})))
       = 1
   \<and> new_events (initial_state {})
        (process_page example_lib example_world open_policy missing_page (initial_state {}))
       = [SeenAdd ''https://h/missing'', Download ''https://h/missing'',
          LogAppend (DirectFileError ''https://h/missing''),
          WriteMeta (page_sidecar_path example_lib ''https://h/missing'')
            (empty_meta ''https://h/missing'' missing_page None None)]"
proof -
  have a: "accepts example_lib open_policy (initial_state {}) missing_page ''https://h/missing''"
    by code_simp
  have r: "raised (process_page example_lib example_world open_policy missing_page
                     (initial_state {})) = None"
    by code_simp
  have h: "page_is_html example_lib missing_page = Inr False
           \<and> \<not> truthy (getattr missing_page ''content'')
           \<and> download_file example_world (trace (initial_state {}) @ [SeenAdd ''https://h/missing''])
                ''https://h/missing'' = ([], None, None)"
    by code_simp
  from page_sidecar_exactly_one [OF a r, of None None] a r h show ?thesis by blast
qed

theorem fallback_once_witness:
  "raised (initial_state {}) = None
   \<and> render_stage example_world (trace (initial_state {})) ''https://h/x'' = Inl ''boom''
   \<and> length (filter is_fallback
        (new_events (initial_state {})
           (process_seed example_lib example_world open_policy ''https://h/x'' (initial_state {}))))
       = 1
   \<and> process_seed example_lib example_world open_policy ''https://h/x'' (initial_state {})
       = (initial_state {})
           \<lparr>trace := trace (initial_state {}) @
              [Render ''https://h/x'', LogAppend (PlaywrightError ''https://h/x'' ''boom''),
               Fallback ''https://h/x'']\<rparr>"
proof -
  have s: "raised (initial_state {}) = None" by code_simp
  have rs: "render_stage example_world (trace (initial_state {})) ''https://h/x'' = Inl ''boom''"
    by code_simp
  have w: "\<not> write_fails example_world (trace (initial_state {}) @ [Render ''https://h/x''])
              LOG_PATH"
    by (simp add: example_world_def)
  have f: "fetch_html_fallback example_world
             (trace (initial_state {}) @
                [Render ''https://h/x'', LogAppend (PlaywrightError ''https://h/x'' ''boom'')])
             ''https://h/x'' = None"
    by (simp add: fetch_html_fallback_def example_world_def)
  from fallback_once [OF s rs w, of example_lib open_policy] s rs f show ?thesis by blast
qed


text \<open>
  Claim C1 as stated fails: with \<open>https://h/a.pdf\<close> in the frontier, a crawl whose
  pages are the index page and the page of \<open>https://h/a.pdf\<close> skips the latter, but
  the index page links to the file, and the downloader fetches it and writes its body
  and a sidecar whose URL is \<open>https://h/a.pdf\<close>.
\<close>

theorem frontier_file_link_counterexample:
  "''https://h/a.pdf'' \<in> seen (initial_state {''https://h/a.pdf''})
   \<and> arun example_world [] ''https://h/index'' = Inr (PList [index_page, pdf_page])
   \<and> getattr pdf_page ''url'' = PStr ''https://h/a.pdf''
   \<and> trace (crawl example_lib example_world open_policy [''https://h/index'']
               {''https://h/a.pdf''})
       = [Render ''https://h/index'', SeenAdd ''https://h/index'',
          WriteHtml ''output_raw/html/399f7e1b98368ad4.html''
            ''<a href=\"https://h/a.pdf\">a</a>'',
          WriteMeta ''output_raw/meta/399f7e1b98368ad4.json''
            (html_meta example_lib ''https://h/index'' index_page [''https://h/a.pdf'']),
          Download ''https://h/a.pdf'',
          WriteFile ''output_raw/files/92af10d122caa42f.pdf'' ''%PDF'',
          WriteMeta ''output_raw/meta/92af10d122caa42f.pdf.json''
            (link_meta example_lib ''https://h/index'' index_page ''https://h/a.pdf''
               (Some ''application/pdf'') (Some 200)),
          LogAppend (PageLine ''https://h/index'' (PInt 200)),
          SaveSeen {''https://h/a.pdf'', ''https://h/index''}]
   \<and> meta_url (link_meta example_lib ''https://h/index'' index_page ''https://h/a.pdf''
               (Some ''application/pdf'') (Some 200)) = ''https://h/a.pdf''"
  by code_simp

subsection \<open>Content-addressed file names\<close>





lemma download_urls_append:
  "download_urls (xs @ ys) = download_urls xs @ download_urls ys"
  by (induction xs rule: download_urls.induct) simp_all

lemma download_urls_none: "list_all no_download evs \<Longrightarrow> download_urls evs = []"
  by (induction evs rule: download_urls.induct) (simp_all add: no_download_def)

lemma new_events_trans:
  assumes "adds Q a b" and "adds Q' b c"
  shows "new_events a c = new_events a b @ new_events b c"
proof -
  have "trace c = trace b @ new_events b c" by (rule adds_new_events(1) [OF assms(2)])
  also have "trace b = trace a @ new_events a b" by (rule adds_new_events(1) [OF assms(1)])
  finally have "trace c = trace a @ (new_events a b @ new_events b c)" by simp
  then show ?thesis by (rule new_events_eq)
qed

lemma download_link_events:
  assumes s: "raised st = None"
  shows "\<exists>rest. trace (download_link L W url page raw_url st)
                  = trace st @ Download (urljoin L url raw_url) # rest
               \<and> list_all no_download rest"
proof -
  let ?f = "urljoin L url raw_url"
  let ?st1 = "emit (Download ?f) st"
  obtain body ctype status where d: "download_file W (trace st) ?f = (body, ctype, status)"
    by (cases "download_file W (trace st) ?f") auto
  have t1: "trace ?st1 = trace st @ [Download ?f]"
    using s by (simp add: emit_def)
  have "\<exists>fin. download_link L W url page raw_url st = fin \<and> adds no_download ?st1 fin"
  proof (cases "body = []")
    case True
    have "download_link L W url page raw_url st = log_append W (FileError ?f) ?st1"
      using s d True by (simp add: download_link_def Let_def)
    moreover have "adds no_download ?st1 (log_append W (FileError ?f) ?st1)"
      by (rule adds_log_append) (simp add: no_download_def)
    ultimately show ?thesis by blast
  next
    case False
    let ?name = "safe_filename L ?f (pick_ext_by_ct ctype)"
    let ?fp = "path_join OUTPUT_FILES ?name"
    let ?mp = "path_join OUTPUT_META (?name @ ''.json'')"
    let ?meta = "\<lparr>meta_url = ?f, meta_status = of_opt_int status,
                  meta_content_type = of_opt_str ctype, meta_file_path = Some ?fp,
                  meta_html_path = None, meta_out_links = [],
                  meta_domain = getattr page ''domain'',
                  meta_notes = Some (''discovered from '' @ url)\<rparr>"
    let ?st2 = "write_path W ?fp (WriteFile ?fp body) ?st1"
    let ?st3 = "write_path W ?mp (WriteMeta ?mp ?meta) ?st2"
    have eq: "download_link L W url page raw_url st = count_file ?st3"
      using s d False by (simp add: download_link_def Let_def)
    have a2: "adds no_download ?st1 ?st2"
      by (rule adds_write_path) (simp_all add: no_download_def)
    have a3: "adds no_download ?st2 ?st3"
      by (rule adds_write_path) (simp_all add: no_download_def)
    have a4: "adds no_download ?st3 (count_file ?st3)" by (rule adds_count_file)
    from a2 a3 have "adds no_download ?st1 ?st3" by (rule adds_trans)
    from this a4 have "adds no_download ?st1 (count_file ?st3)" by (rule adds_trans)
    with eq show ?thesis by blast
  qed
  then obtain fin where f: "download_link L W url page raw_url st = fin"
    and a: "adds no_download ?st1 fin" by blast
  have "trace fin = trace ?st1 @ new_events ?st1 fin" by (rule adds_new_events(1) [OF a])
  then have "trace fin = trace st @ Download ?f # new_events ?st1 fin"
    by (simp only: t1 append_assoc append_Cons append_Nil)
  moreover have "list_all no_download (new_events ?st1 fin)" by (rule adds_new_events(2) [OF a])
  ultimately show ?thesis unfolding f by blast
qed

lemma download_links_urls:
  "raised (fold (download_link L W url page) raws st) = None \<Longrightarrow>
   download_urls (new_events st (fold (download_link L W url page) raws st))
     = map (urljoin L url) raws"
proof (induction raws arbitrary: st)
  case Nil
  show ?case by (simp add: new_events_def)
next
  case (Cons r rs)
  let ?st1 = "download_link L W url page r st"
  let ?fin = "fold (download_link L W url page) rs ?st1"
  have f: "fold (download_link L W url page) (r # rs) st = ?fin" by simp
  have a1: "adds (is_link_event url) st ?st1" by (rule adds_download_link)
  have a2: "adds (is_link_event url) ?st1 ?fin" by (rule adds_download_links)
  from Cons.prems have rf: "raised ?fin = None" by (simp only: f)
  with a2 have r1: "raised ?st1 = None" by (rule adds_raised_back)
  with a1 have r0: "raised st = None" by (rule adds_raised_back)
  from download_link_events [OF r0, of L W url page r]
  obtain rest where t: "trace ?st1 = trace st @ Download (urljoin L url r) # rest"
    and q: "list_all no_download rest" by blast
  from t have n1: "new_events st ?st1 = Download (urljoin L url r) # rest"
    by (rule new_events_eq)
  have "new_events st ?fin = new_events st ?st1 @ new_events ?st1 ?fin"
    using a1 a2 by (rule new_events_trans)
  then have "download_urls (new_events st ?fin)
      = urljoin L url r # download_urls rest @ download_urls (new_events ?st1 ?fin)"
    by (simp only: n1 download_urls_append append_Cons download_urls.simps)
  also have "download_urls rest = []" using q by (rule download_urls_none)
  also have "download_urls (new_events ?st1 ?fin) = map (urljoin L url) rs"
    using rf by (rule Cons.IH)
  finally show ?case by (simp only: f) simp
qed

lemma adds_page_done_no_download: "adds no_download st (page_done W url page st)"
proof -
  let ?st1 = "log_append W (PageLine url (getattr page ''status'')) st"
  have a1: "adds no_download st ?st1"
    by (rule adds_log_append) (simp add: no_download_def)
  have a2: "adds no_download ?st1 (save_seen W ?st1)"
    by (rule adds_save_seen) (simp add: no_download_def)
  from a1 a2 have "adds no_download st (save_seen W ?st1)" by (rule adds_trans)
  with a1 show ?thesis by (simp add: page_done_def Let_def)
qed

lemma html_events_no_download: "download_urls (html_events L url page) = []"
  by (simp add: html_events_def)

lemma html_page_downloads:
  assumes a: "accepts L P st page url"
    and h: "page_is_html L page = Inr True"
    and l: "page_links L page = Inr links"
    and r: "raised (process_page L W P page st) = None"
  shows "download_urls (new_events st (process_page L W P page st))
           = map (urljoin L url) (filter (\<lambda>l. looks_like_file l (file_exts P)) links)"
proof -
  let ?acc = "accepted_state url st"
  let ?st1 = "html_written L W url page ?acc"
  let ?mp = "page_sidecar_path L url"
  let ?m = "html_meta L url page links"
  let ?st2 = "write_path W ?mp (WriteMeta ?mp ?m) ?st1"
  let ?raws = "filter (\<lambda>l. looks_like_file l (file_exts P)) links"
  let ?st3 = "fold (download_link L W url page) ?raws ?st2"
  let ?fin = "page_done W url page ?st3"
  from a have s: "raised st = None" by (simp add: accepts_def)
  note acc = accepted_state_fields [OF s, of url]
  have hb: "html_branch L W P url page ?acc = ?st3"
    using l by (simp add: html_branch_unfold)
  from a have "process_page L W P page st = classify L W P url page ?acc"
    by (rule process_page_accepted)
  also have "\<dots> = page_done W url page (html_branch L W P url page ?acc)"
    using h by (simp add: classify_def)
  finally have eq: "process_page L W P page st = ?fin" by (simp only: hb)
  have a4: "adds no_download ?st3 ?fin" by (rule adds_page_done_no_download)
  have a3: "adds (is_link_event url) ?st2 ?st3" by (rule adds_download_links)
  from r have rf: "raised ?fin = None" by (simp only: eq)
  with a4 have r3: "raised ?st3 = None" by (rule adds_raised_back)
  with a3 have r2: "raised ?st2 = None" by (rule adds_raised_back)
  then have t2: "trace ?st2 = trace ?st1 @ [WriteMeta ?mp ?m]" and r1: "raised ?st1 = None"
    by (rule write_path_not_raised)+
  from r1 have t1: "trace ?st1 = trace ?acc @ html_events L url page"
    by (rule html_written_trace)
  have t3: "trace ?st3 = trace ?st2 @ new_events ?st2 ?st3" by (rule adds_new_events(1) [OF a3])
  have t4: "trace ?fin = trace ?st3 @ new_events ?st3 ?fin" by (rule adds_new_events(1) [OF a4])
  have "trace ?fin = trace st @ (SeenAdd url # html_events L url page @ WriteMeta ?mp ?m #
          new_events ?st2 ?st3 @ new_events ?st3 ?fin)"
    by (simp only: t4 t3 t2 t1 acc(1) append_assoc append_Cons append_Nil)
  then have n: "new_events st ?fin = SeenAdd url # html_events L url page @ WriteMeta ?mp ?m #
          new_events ?st2 ?st3 @ new_events ?st3 ?fin"
    by (rule new_events_eq)
  have d3: "download_urls (new_events ?st2 ?st3) = map (urljoin L url) ?raws"
    using r3 by (rule download_links_urls)
  have d4: "download_urls (new_events ?st3 ?fin) = []"
    by (rule download_urls_none) (rule adds_new_events(2) [OF a4])
  have "download_urls (new_events st ?fin) = map (urljoin L url) ?raws"
    unfolding n by (simp add: download_urls_append html_events_no_download d3 d4)
  then show ?thesis by (simp only: eq)
qed

subsection \<open>File links and the frontier\<close>

text \<open>
  Claim C10, as the code has it. The loop over the file links of a page never changes
  the frontier, and over a list of pages the frontier grows at most by the URLs of pages
  that the policy allows: the URL of a file link is never put into it. When an HTML page
  is accepted and no exception escapes, the downloads made for the page are exactly
  the harvested links that look like a file, each resolved against the URL of the page,
  in the order of the harvest and one download for every link string; the frontier
  gains the URL of the page and nothing else. Whether a resolved URL is in the frontier
  is never asked. A download that is not empty is saved: the body at the
  content-addressed path of the resolved URL, then its sidecar, and the file counter
  goes up by one.
\<close>

theorem file_links_ignore_frontier:
  "seen (fold (download_link L W url page) raws st) = seen st
   \<and> seen (fold (process_page L W P) pages st)
       \<subseteq> seen st \<union> {u. \<exists>p \<in> set pages. getattr p ''url'' = PStr u \<and> policy_allows L P u}
   \<and> (accepts L P st page url \<and> page_is_html L page = Inr True
      \<and> page_links L page = Inr links \<and> raised (process_page L W P page st) = None
      \<longrightarrow> download_urls (new_events st (process_page L W P page st))
            = map (urljoin L url) (filter (\<lambda>l. looks_like_file l (file_exts P)) links)
          \<and> seen (process_page L W P page st) = insert url (seen st))
   \<and> (raised st = None
      \<and> http_get_bytes W (trace st) (urljoin L url raw_url) = Some (body, ctype, status)
      \<and> body \<noteq> []
      \<and> \<not> write_fails W (trace st @ [Download (urljoin L url raw_url)])
                (link_file_path L (urljoin L url raw_url) ctype)
      \<and> \<not> write_fails W
                (trace st @ [Download (urljoin L url raw_url),
                             WriteFile (link_file_path L (urljoin L url raw_url) ctype) body])
                (link_sidecar_path L (urljoin L url raw_url) ctype)
      \<longrightarrow> download_link L W url page raw_url st =
           st\<lparr>trace := trace st @
                  saved_link_events L url page (urljoin L url raw_url) body ctype status,
              file_count := file_count st + 1\<rparr>)"
proof (intro conjI impI)
  show "seen (fold (download_link L W url page) raws st) = seen st"
    by (rule download_links_seen)
  show "seen (fold (process_page L W P) pages st)
       \<subseteq> seen st \<union> {u. \<exists>p \<in> set pages. getattr p ''url'' = PStr u \<and> policy_allows L P u}"
    by (rule process_pages_seen_subset)
next
  assume h: "accepts L P st page url \<and> page_is_html L page = Inr True
      \<and> page_links L page = Inr links \<and> raised (process_page L W P page st) = None"
  then have a: "accepts L P st page url" and ht: "page_is_html L page = Inr True"
    and l: "page_links L page = Inr links" and r: "raised (process_page L W P page st) = None"
    by blast+
  from a ht l r
  show "download_urls (new_events st (process_page L W P page st))
            = map (urljoin L url) (filter (\<lambda>l. looks_like_file l (file_exts P)) links)"
    by (rule html_page_downloads)
  let ?acc = "accepted_state url st"
  from a have s: "raised st = None" by (simp add: accepts_def)
  from a have eq: "process_page L W P page st = classify L W P url page ?acc"
    by (rule process_page_accepted)
  have "seen (classify L W P url page ?acc) = seen ?acc"
    by (rule adds_inner_seen) (rule adds_classify)
  then have "seen (classify L W P url page ?acc) = insert url (seen st)"
    by (simp only: accepted_state_fields(2) [OF s])
  then show "seen (process_page L W P page st) = insert url (seen st)"
    by (simp only: eq)
next
  assume a: "raised st = None
      \<and> http_get_bytes W (trace st) (urljoin L url raw_url) = Some (body, ctype, status)
      \<and> body \<noteq> []
      \<and> \<not> write_fails W (trace st @ [Download (urljoin L url raw_url)])
                (link_file_path L (urljoin L url raw_url) ctype)
      \<and> \<not> write_fails W
                (trace st @ [Download (urljoin L url raw_url),
                             WriteFile (link_file_path L (urljoin L url raw_url) ctype) body])
                (link_sidecar_path L (urljoin L url raw_url) ctype)"
  show "download_link L W url page raw_url st =
           st\<lparr>trace := trace st @
                  saved_link_events L url page (urljoin L url raw_url) body ctype status,
              file_count := file_count st + 1\<rparr>"
    by (rule download_link_saved) (use a in blast)+
qed

theorem file_links_ignore_frontier_witness:
  "accepts example_lib open_policy (initial_state {''https://h/a.pdf''}) index_page
     ''https://h/index''
   \<and> page_is_html example_lib index_page = Inr True
   \<and> page_links example_lib index_page = Inr [''https://h/a.pdf'']
   \<and> raised (process_page example_lib example_world open_policy index_page
               (initial_state {''https://h/a.pdf''})) = None
   \<and> download_urls (new_events (initial_state {''https://h/a.pdf''})
        (process_page example_lib example_world open_policy index_page
           (initial_state {''https://h/a.pdf''})))
       = [''https://h/a.pdf'']
   \<and> seen (process_page example_lib example_world open_policy index_page
             (initial_state {''https://h/a.pdf''}))
       = {''https://h/index'', ''https://h/a.pdf''}
   \<and> filter is_download
        (trace (crawl example_lib two_links_world open_policy [''https://h/index''] {}))
       = [Download ''https://h/a.pdf'', Download ''https://h/a.pdf'']
   \<and> filter is_file_write
        (trace (crawl example_lib two_links_world open_policy [''https://h/index''] {}))
       = [WriteFile ''output_raw/files/92af10d122caa42f.pdf'' ''%PDF'',
          WriteFile ''output_raw/files/92af10d122caa42f.pdf'' ''%PDF'']
   \<and> seen (crawl example_lib two_links_world open_policy [''https://h/index''] {})
       = {''https://h/index'', ''https://h/news''}
   \<and> http_get_bytes example_world (trace (initial_state {''https://h/a.pdf''}))
        (urljoin example_lib ''https://h/index'' ''https://h/a.pdf'')
        = Some (''%PDF'', Some ''application/pdf'', 200)
   \<and> download_link example_lib example_world ''https://h/index'' index_page ''https://h/a.pdf''
        (initial_state {''https://h/a.pdf''})
      = (initial_state {''https://h/a.pdf''})
          \<lparr>trace := trace (initial_state {''https://h/a.pdf''}) @
             saved_link_events example_lib ''https://h/index'' index_page
               (urljoin example_lib ''https://h/index'' ''https://h/a.pdf'') ''%PDF''
               (Some ''application/pdf'') 200,
           file_count := file_count (initial_state {''https://h/a.pdf''}) + 1\<rparr>"
proof -
  have r0: "raised (initial_state {''https://h/a.pdf''}) = None"
    by (simp add: initial_state_def)
  have g: "http_get_bytes example_world (trace (initial_state {''https://h/a.pdf''}))
        (urljoin example_lib ''https://h/index'' ''https://h/a.pdf'')
        = Some (''%PDF'', Some ''application/pdf'', 200)"
    by (simp add: example_world_def example_lib_def)
  have w: "\<not> write_fails example_world h p" for h p
    by (simp add: example_world_def)
  have n: "''%PDF'' \<noteq> []" by simp
  from file_links_ignore_frontier [of example_lib example_world "''https://h/index''" index_page
      "[]" "initial_state {''https://h/a.pdf''}" open_policy "[]" "[]" "''https://h/a.pdf''"
      "''%PDF''" "Some ''application/pdf''" 200] r0 g n w
  have d: "download_link example_lib example_world ''https://h/index'' index_page ''https://h/a.pdf''
        (initial_state {''https://h/a.pdf''})
      = (initial_state {''https://h/a.pdf''})
          \<lparr>trace := trace (initial_state {''https://h/a.pdf''}) @
             saved_link_events example_lib ''https://h/index'' index_page
               (urljoin example_lib ''https://h/index'' ''https://h/a.pdf'') ''%PDF''
               (Some ''application/pdf'') 200,
           file_count := file_count (initial_state {''https://h/a.pdf''}) + 1\<rparr>"
    by blast
  have a: "accepts example_lib open_policy (initial_state {''https://h/a.pdf''}) index_page
     ''https://h/index''"
    by code_simp
  have h: "page_is_html example_lib index_page = Inr True" by code_simp
  have l: "page_links example_lib index_page = Inr [''https://h/a.pdf'']" by code_simp
  have r: "raised (process_page example_lib example_world open_policy index_page
               (initial_state {''https://h/a.pdf''})) = None"
    by code_simp
  have m: "map (urljoin example_lib ''https://h/index'')
             (filter (\<lambda>l. looks_like_file l (file_exts open_policy)) [''https://h/a.pdf''])
           = [''https://h/a.pdf'']"
    by code_simp
  have i: "insert ''https://h/index'' (seen (initial_state {''https://h/a.pdf''}))
           = {''https://h/index'', ''https://h/a.pdf''}"
    by (simp add: initial_state_def)
  have c: "filter is_download
        (trace (crawl example_lib two_links_world open_policy [''https://h/index''] {}))
       = [Download ''https://h/a.pdf'', Download ''https://h/a.pdf'']
   \<and> filter is_file_write
        (trace (crawl example_lib two_links_world open_policy [''https://h/index''] {}))
       = [WriteFile ''output_raw/files/92af10d122caa42f.pdf'' ''%PDF'',
          WriteFile ''output_raw/files/92af10d122caa42f.pdf'' ''%PDF'']
   \<and> seen (crawl example_lib two_links_world open_policy [''https://h/index''] {})
       = {''https://h/index'', ''https://h/news''}"
    by code_simp
  from file_links_ignore_frontier [of example_lib example_world "''https://h/index''"
      index_page "[]" "initial_state {''https://h/a.pdf''}" open_policy "[]"
      "[''https://h/a.pdf'']"] a h l r
  have "download_urls (new_events (initial_state {''https://h/a.pdf''})
        (process_page example_lib example_world open_policy index_page
           (initial_state {''https://h/a.pdf''})))
       = map (urljoin example_lib ''https://h/index'')
             (filter (\<lambda>l. looks_like_file l (file_exts open_policy)) [''https://h/a.pdf''])
     \<and> seen (process_page example_lib example_world open_policy index_page
             (initial_state {''https://h/a.pdf''}))
       = insert ''https://h/index'' (seen (initial_state {''https://h/a.pdf''}))"
    by blast
  then have "download_urls (new_events (initial_state {''https://h/a.pdf''})
        (process_page example_lib example_world open_policy index_page
           (initial_state {''https://h/a.pdf''})))
       = [''https://h/a.pdf'']
     \<and> seen (process_page example_lib example_world open_policy index_page
             (initial_state {''https://h/a.pdf''}))
       = {''https://h/index'', ''https://h/a.pdf''}"
    by (simp only: m i)
  with a h l r c g d show ?thesis by blast
qed

text \<open>
  Claim C10 as stated fails: a linked file is not downloaded once for every page that
  links to it. The harvest removes only equal link strings, so a page with a relative
  and an absolute link to the same file downloads the file twice and writes it twice
  to the same path.
\<close>

theorem twice_on_one_page_counterexample:
  "accepts example_lib open_policy (initial_state {}) twice_page ''https://h/twice''
   \<and> page_links example_lib twice_page = Inr [''a.pdf'', ''https://h/a.pdf'']
   \<and> trace (process_page example_lib example_world open_policy twice_page (initial_state {}))
       = [SeenAdd ''https://h/twice'',
          WriteHtml ''output_raw/html/ef08651fd8d3d640.html''
            ''<a href=\"a.pdf\">a</a><a href=\"https://h/a.pdf\">b</a>'',
          WriteMeta ''output_raw/meta/ef08651fd8d3d640.json''
            (html_meta example_lib ''https://h/twice'' twice_page [''a.pdf'', ''https://h/a.pdf'']),
          Download ''https://h/a.pdf'',
          WriteFile ''output_raw/files/92af10d122caa42f.pdf'' ''%PDF'',
          WriteMeta ''output_raw/meta/92af10d122caa42f.pdf.json''
            (link_meta example_lib ''https://h/twice'' twice_page ''https://h/a.pdf''
               (Some ''application/pdf'') (Some 200)),
          Download ''https://h/a.pdf'',
          WriteFile ''output_raw/files/92af10d122caa42f.pdf'' ''%PDF'',
          WriteMeta ''output_raw/meta/92af10d122caa42f.pdf.json''
            (link_meta example_lib ''https://h/twice'' twice_page ''https://h/a.pdf''
               (Some ''application/pdf'') (Some 200)),
          LogAppend (PageLine ''https://h/twice'' (PInt 200))]"
  by code_simp

end
